theory Spec2Isabelle
  imports Main "HOL-Library.Sublist"
begin

section \<open>The image relay handler of \<^verbatim>\<open>main.go\<close>\<close>

text \<open>
  The program is one WebSocket handler, \<^verbatim>\<open>handleWebSocket\<close>: it reads framed
  messages in a loop, decodes each one as an \<^verbatim>\<open>ImageData\<close> envelope and either
  stores an image under \<^verbatim>\<open>images/<id>.jpg\<close> (command \<^verbatim>\<open>upload\<close>) or sends a stored
  image back as a data URI (command \<^verbatim>\<open>request\<close>).

  The embedding keeps the handler's control flow branch by branch. What the handler calls
  but does not define is modelled as follows.
  \<^item> Go strings and byte slices are \<open>string\<close> (a list of 8-bit characters).
  \<^item> \<^verbatim>\<open>strings.HasPrefix\<close>, \<^verbatim>\<open>strings.Index\<close> and slicing are list functions.
  \<^item> \<^verbatim>\<open>base64.StdEncoding\<close> is modelled from the Go library: the decoder skips CR and
    LF, requires padding, and (not being in strict mode) does not look at the unused low
    bits of the last character before the padding.
  \<^item> \<^verbatim>\<open>json.Unmarshal\<close> is modelled on parsed JSON values: a message body is either not
    JSON at all or the value it denotes; keys are matched to the three struct fields
    exactly or, failing that, case-insensitively, a value of the wrong type for a
    matched field is a decode error, and so is a value nested deeper than 10000 levels.
  \<^item> The file system is a store of byte strings indexed by file identities. Which
    file a path names is a parameter \<open>res\<close> of the handler functions (\<open>None\<close>: some
    directory on the way is missing), so every theorem holds for every directory layout.
    The layout does not change while the connection lives, the store holds regular files
    only, nobody else writes to it, and one \<^verbatim>\<open>Read\<close> returns a whole file.
  \<^item> Everything else the environment decides (a system call or the transport failing)
    is an input: each received message comes with a record of \<open>faults\<close> saying which
    calls fail while that message is handled.
  \<^item> What the handler does to the outside is returned as a list of \<open>effect\<close>s in program
    order: log lines, file-system calls with their path, and messages sent to the peer.
\<close>

subsection \<open>Strings\<close>

type_synonym bytes = string

definition HasPrefix :: "string \<Rightarrow> string \<Rightarrow> bool" where
  "HasPrefix s pre = prefix pre s"

text \<open>\<^verbatim>\<open>strings.Index\<close>: the position of the first occurrence of \<open>sub\<close>, or \<open>-1\<close>.\<close>

fun Index :: "string \<Rightarrow> string \<Rightarrow> int" where
  "Index [] sub = (if sub = [] then 0 else - 1)"
| "Index (c # s) sub =
     (if prefix sub (c # s) then 0
      else (let r = Index s sub in if r < 0 then - 1 else r + 1))"

subsection \<open>\<^verbatim>\<open>base64.StdEncoding\<close>\<close>

definition encodeStd :: string where
  "encodeStd = ''ABCDEFGHIJKLMNOPQRSTUVWXYZabcdefghijklmnopqrstuvwxyz0123456789+/''"

definition padChar :: char where
  "padChar = CHR ''=''"

definition encode6 :: "nat \<Rightarrow> char" where
  "encode6 n = encodeStd ! (n mod 64)"

text \<open>
  The decoding table maps a character of the alphabet to its position and every other
  character to \<open>None\<close> (the library's \<^verbatim>\<open>0xff\<close>).
\<close>

fun index_of :: "'a list \<Rightarrow> 'a \<Rightarrow> nat option" where
  "index_of [] c = None"
| "index_of (x # xs) c = (if x = c then Some 0 else map_option (\<lambda>n. n + 1) (index_of xs c))"

definition decodeMap :: "char \<Rightarrow> nat option" where
  "decodeMap c = index_of encodeStd c"

definition is_newline :: "char \<Rightarrow> bool" where
  "is_newline c \<longleftrightarrow> c = CHR 0x0A \<or> c = CHR 0x0D"

text \<open>
  \<^verbatim>\<open>EncodeToString\<close>: three bytes make a 24-bit value that is cut into four 6-bit
  digits; a remainder of one or two bytes is padded with \<^verbatim>\<open>=\<close>.
\<close>

fun EncodeToString :: "bytes \<Rightarrow> string" where
  "EncodeToString (a # b # c # rest) =
     (let val = of_char a * 65536 + of_char b * 256 + (of_char c :: nat)
      in encode6 (val div 262144) # encode6 (val div 4096) # encode6 (val div 64) # encode6 val
           # EncodeToString rest)"
| "EncodeToString [a, b] =
     (let val = of_char a * 65536 + of_char b * (256 :: nat)
      in [encode6 (val div 262144), encode6 (val div 4096), encode6 (val div 64), padChar])"
| "EncodeToString [a] =
     (let val = of_char a * (65536 :: nat)
      in [encode6 (val div 262144), encode6 (val div 4096), padChar, padChar])"
| "EncodeToString [] = []"

text \<open>
  The three bytes of a quantum of four 6-bit digits (\<^verbatim>\<open>byte(val >> 16)\<close>,
  \<^verbatim>\<open>byte(val >> 8)\<close>, \<^verbatim>\<open>byte(val)\<close>; \<open>char_of\<close> truncates to eight bits).
\<close>

definition quantum_bytes :: "nat list \<Rightarrow> bytes" where
  "quantum_bytes dbuf =
     (let val = (dbuf ! 0) * 262144 + (dbuf ! 1) * 4096 + (dbuf ! 2) * 64 + (dbuf ! 3)
      in [char_of (val div 65536), char_of (val div 256), char_of val])"

text \<open>
  The decoder (\<^verbatim>\<open>decodeQuantum\<close> iterated by \<^verbatim>\<open>Decode\<close>). \<open>dbuf\<close> holds the digits
  of the current quantum. The end of the input inside a quantum, a character outside the
  alphabet, padding after fewer than two digits, and anything but newlines after the
  padding are errors; the library then returns \<^verbatim>\<open>CorruptInputError\<close>, here \<open>None\<close>.
\<close>

fun decode_from :: "nat list \<Rightarrow> string \<Rightarrow> bytes option" where
  "decode_from dbuf [] = (if dbuf = [] then Some [] else None)"
| "decode_from dbuf (c # src) =
     (case decodeMap c of
        Some v \<Rightarrow>
          if length dbuf = 3
          then map_option (\<lambda>r. quantum_bytes (dbuf @ [v]) @ r) (decode_from [] src)
          else decode_from (dbuf @ [v]) src
      | None \<Rightarrow>
          if is_newline c then decode_from dbuf src
          else if c \<noteq> padChar then None
          else if length dbuf < 2 then None
          else if length dbuf = 2 then
            (case dropWhile is_newline src of
               [] \<Rightarrow> None
             | p # src' \<Rightarrow>
                 if p \<noteq> padChar then None
                 else if dropWhile is_newline src' \<noteq> [] then None
                 else Some (take 1 (quantum_bytes (dbuf @ [0, 0]))))
          else
            (if dropWhile is_newline src \<noteq> [] then None
             else Some (take 2 (quantum_bytes (dbuf @ [0])))))"

definition DecodeString :: "string \<Rightarrow> bytes option" where
  "DecodeString s = decode_from [] s"

subsection \<open>The envelope and \<^verbatim>\<open>json.Unmarshal\<close>\<close>

record ImageData =
  Command :: string
  ID :: string
  Base64Img :: string

definition zero_ImageData :: ImageData where
  "zero_ImageData = \<lparr>Command = [], ID = [], Base64Img = []\<rparr>"

datatype json =
    JNull
  | JBool bool
  | JNumber string
  | JString string
  | JArray "json list"
  | JObject "(string \<times> json) list"

text \<open>A message body: bytes that are not JSON text, or the value the text denotes.\<close>

datatype body = NotJSON | JSON json

datatype unmarshal_error = SyntaxError | UnmarshalTypeError

datatype field = FCommand | FID | FBase64Img

definition field_name :: "field \<Rightarrow> string" where
  "field_name f = (case f of FCommand \<Rightarrow> ''command'' | FID \<Rightarrow> ''id'' | FBase64Img \<Rightarrow> ''base64Img'')"

definition to_upper :: "char \<Rightarrow> char" where
  "to_upper c =
     (if (97 :: nat) \<le> of_char c \<and> of_char c \<le> (122 :: nat)
      then char_of (of_char c - (32 :: nat)) else c)"

text \<open>
  The library's name folding: ASCII letters go to upper case, and the only two letters
  outside ASCII that fold to an ASCII letter, the long s (UTF-8 \<^verbatim>\<open>C5 BF\<close>) and the
  Kelvin sign (UTF-8 \<^verbatim>\<open>E2 84 AA\<close>), go to \<^verbatim>\<open>S\<close> and \<^verbatim>\<open>K\<close>. Other bytes outside
  ASCII are kept: they never fold to an ASCII name, which is all the matching needs.
\<close>

fun foldName :: "string \<Rightarrow> string" where
  "foldName (a # b # c # s) =
     (if a = CHR 0xE2 \<and> b = CHR 0x84 \<and> c = CHR 0xAA then CHR ''K'' # foldName s
      else if a = CHR 0xC5 \<and> b = CHR 0xBF then CHR ''S'' # foldName (c # s)
      else to_upper a # foldName (b # c # s))"
| "foldName [a, b] =
     (if a = CHR 0xC5 \<and> b = CHR 0xBF then [CHR ''S''] else to_upper a # foldName [b])"
| "foldName [a] = [to_upper a]"
| "foldName [] = []"

text \<open>An exact match of the key is preferred, a match of the folded names accepted.\<close>

definition field_of_key :: "string \<Rightarrow> field option" where
  "field_of_key key =
     (if key = field_name FCommand then Some FCommand
      else if key = field_name FID then Some FID
      else if key = field_name FBase64Img then Some FBase64Img
      else if foldName key = foldName (field_name FCommand) then Some FCommand
      else if foldName key = foldName (field_name FID) then Some FID
      else if foldName key = foldName (field_name FBase64Img) then Some FBase64Img
      else None)"

definition set_field :: "field \<Rightarrow> string \<Rightarrow> ImageData \<Rightarrow> ImageData" where
  "set_field f s d =
     (case f of
        FCommand \<Rightarrow> d\<lparr>Command := s\<rparr>
      | FID \<Rightarrow> d\<lparr>ID := s\<rparr>
      | FBase64Img \<Rightarrow> d\<lparr>Base64Img := s\<rparr>)"


text \<open>
  The members of an object in document order. A string sets the field, \<^verbatim>\<open>null\<close>
  leaves it, any other value leaves it and records a type error (the first one is kept,
  decoding goes on). Members with an unknown key are skipped.
\<close>

fun unmarshal_members ::
  "(string \<times> json) list \<Rightarrow> ImageData \<Rightarrow> unmarshal_error option
     \<Rightarrow> ImageData \<times> unmarshal_error option" where
  "unmarshal_members [] d err = (d, err)"
| "unmarshal_members ((key, v) # ms) d err =
     (case field_of_key key of
        None \<Rightarrow> unmarshal_members ms d err
      | Some f \<Rightarrow>
          (case v of
             JString s \<Rightarrow> unmarshal_members ms (set_field f s d) err
           | JNull \<Rightarrow> unmarshal_members ms d err
           | _ \<Rightarrow> unmarshal_members ms d
                   (case err of None \<Rightarrow> Some UnmarshalTypeError | Some e \<Rightarrow> Some e)))"

text \<open>
  The library checks the whole text before it decodes anything, and the check counts
  the arrays and objects that are open at the same time: with more than 10000 of them it
  fails with the syntax error "exceeded max depth", wherever in the text that happens.
\<close>

primrec nesting_depth :: "json \<Rightarrow> nat" where
  "nesting_depth JNull = 0"
| "nesting_depth (JBool b) = 0"
| "nesting_depth (JNumber n) = 0"
| "nesting_depth (JString s) = 0"
| "nesting_depth (JArray vs) = 1 + fold max (map nesting_depth vs) 0"
| "nesting_depth (JObject ms) =
     1 + fold max (map snd (map (map_prod id nesting_depth) ms)) 0"

definition maxNestingDepth :: nat where
  "maxNestingDepth = 10000"

text \<open>
  \<^verbatim>\<open>json.Unmarshal(message, &imgData)\<close> on the fresh \<^verbatim>\<open>imgData\<close> of the loop body:
  the envelope and the error.
\<close>

definition Unmarshal :: "body \<Rightarrow> ImageData \<times> unmarshal_error option" where
  "Unmarshal b =
     (case b of
        NotJSON \<Rightarrow> (zero_ImageData, Some SyntaxError)
      | JSON v \<Rightarrow>
          if maxNestingDepth < nesting_depth v then (zero_ImageData, Some SyntaxError)
          else
            (case v of
               JNull \<Rightarrow> (zero_ImageData, None)
             | JObject ms \<Rightarrow> unmarshal_members ms zero_ImageData None
             | _ \<Rightarrow> (zero_ImageData, Some UnmarshalTypeError)))"

subsection \<open>Environment, effects\<close>

text \<open>
  Which calls fail while one message is handled. \<open>write_fails = Some n\<close>: \<^verbatim>\<open>file.Write\<close>
  reports an error after \<open>n\<close> bytes. \<open>stat_fails\<close>: \<^verbatim>\<open>os.Stat\<close> fails with an error
  other than "does not exist".
\<close>

record faults =
  create_fails :: bool
  write_fails :: "nat option"
  stat_fails :: bool
  open_fails :: bool
  fstat_fails :: bool
  read_fails :: bool
  send_fails :: bool

definition no_faults :: faults where
  "no_faults = \<lparr>create_fails = False, write_fails = None, stat_fails = False,
     open_fails = False, fstat_fails = False, read_fails = False, send_fails = False\<rparr>"

text \<open>The log lines of the handler, named by what they report (source line in brackets).\<close>

datatype logline =
    LogUpgradeFailed            \<comment> \<open>[28]\<close>
  | LogReadFailed               \<comment> \<open>[36]\<close>
  | LogJSONDecodeFailed         \<comment> \<open>[43]\<close>
  | LogNoBase64Format           \<comment> \<open>[52]\<close>
  | LogBase64DecodeFailed       \<comment> \<open>[59]\<close>
  | LogCreateFailed             \<comment> \<open>[66]\<close>
  | LogWriteFailed              \<comment> \<open>[73]\<close>
  | LogSaved string             \<comment> \<open>[77], with \<^verbatim>\<open>fileName\<close>\<close>
  | LogNotFound string          \<comment> \<open>[84], with \<^verbatim>\<open>fileName\<close>\<close>
  | LogOpenFailed               \<comment> \<open>[90]\<close>
  | LogFileReadFailed           \<comment> \<open>[100]\<close>
  | LogSendFailed               \<comment> \<open>[109]\<close>
  | LogSent string              \<comment> \<open>[113], with \<^verbatim>\<open>fileName\<close>\<close>
  | LogUnknownCommand string    \<comment> \<open>[117], with the command\<close>

datatype effect =
    Log logline
  | FsCreate string       \<comment> \<open>\<^verbatim>\<open>os.Create(path)\<close>\<close>
  | FsStat string         \<comment> \<open>\<^verbatim>\<open>os.Stat(path)\<close>\<close>
  | FsOpen string         \<comment> \<open>\<^verbatim>\<open>os.Open(path)\<close>\<close>
  | WsWrite string        \<comment> \<open>a message sent by \<^verbatim>\<open>conn.WriteMessage\<close>\<close>
  | WsClose               \<comment> \<open>the deferred \<^verbatim>\<open>conn.Close()\<close>\<close>

fun responses :: "effect list \<Rightarrow> string list" where
  "responses [] = []"
| "responses (WsWrite m # es) = m # responses es"
| "responses (e # es) = responses es"

fun fs_paths :: "effect list \<Rightarrow> string list" where
  "fs_paths [] = []"
| "fs_paths (FsCreate p # es) = p # fs_paths es"
| "fs_paths (FsStat p # es) = p # fs_paths es"
| "fs_paths (FsOpen p # es) = p # fs_paths es"
| "fs_paths (e # es) = fs_paths es"

text \<open>How the handling of one message leaves the loop body.\<close>

datatype flow =
    Next      \<comment> \<open>the loop goes on to the next \<^verbatim>\<open>ReadMessage\<close>\<close>
  | Panic     \<comment> \<open>a run-time panic unwinds the handler\<close>

subsection \<open>The two commands\<close>

text \<open>
  \<^verbatim>\<open>case "upload"\<close> [48-78]. Every \<^verbatim>\<open>continue\<close> and the end of the case lead to the
  next iteration, so the result is the new store and the effects. \<^verbatim>\<open>os.Create\<close>
  truncates the file before anything is written.
\<close>

definition handle_upload ::
  "(string \<Rightarrow> 'k option) \<Rightarrow> faults \<Rightarrow> ('k \<rightharpoonup> bytes) \<Rightarrow> ImageData
     \<Rightarrow> ('k \<rightharpoonup> bytes) \<times> effect list" where
  "handle_upload res fl fs d =
     (if HasPrefix (Base64Img d) ''data:image/'' then
        (let imageDataIndex = Index (Base64Img d) '','' + 1 in
         if imageDataIndex \<le> 0 then (fs, [Log LogNoBase64Format])
         else
           (case DecodeString (drop (nat imageDataIndex) (Base64Img d)) of
              None \<Rightarrow> (fs, [Log LogBase64DecodeFailed])
            | Some imgBytes \<Rightarrow>
                (let fileName = ID d @ ''.jpg''; path = ''images/'' @ fileName in
                 case (if create_fails fl then None else res path) of
                   None \<Rightarrow> (fs, [FsCreate path, Log LogCreateFailed])
                 | Some k \<Rightarrow>
                     (case write_fails fl of
                        Some n \<Rightarrow>
                          (fs(k \<mapsto> take n imgBytes), [FsCreate path, Log LogWriteFailed])
                      | None \<Rightarrow>
                          (fs(k \<mapsto> imgBytes), [FsCreate path, Log (LogSaved fileName)])))))
      else (fs, []))"

text \<open>The content of the file a path names, if the path resolves and the file exists.\<close>

definition lookup_file :: "(string \<Rightarrow> 'k option) \<Rightarrow> ('k \<rightharpoonup> bytes) \<Rightarrow> string \<Rightarrow> bytes option" where
  "lookup_file res fs path = (case res path of None \<Rightarrow> None | Some k \<Rightarrow> fs k)"

text \<open>
  \<^verbatim>\<open>case "request"\<close> [80-114]. The result of \<^verbatim>\<open>file.Stat()\<close> is used without looking
  at its error [96-97]: if that call fails, \<^verbatim>\<open>stat\<close> is nil and \<^verbatim>\<open>stat.Size()\<close> panics.
  The \<^verbatim>\<open>break\<close> after a failed \<^verbatim>\<open>WriteMessage\<close> [110] stands inside the \<^verbatim>\<open>switch\<close>:
  in Go it ends the \<^verbatim>\<open>switch\<close> statement, not the \<^verbatim>\<open>for\<close> loop around it, so the loop
  goes on to the next \<^verbatim>\<open>ReadMessage\<close>.
\<close>

definition handle_request ::
  "(string \<Rightarrow> 'k option) \<Rightarrow> faults \<Rightarrow> ('k \<rightharpoonup> bytes) \<Rightarrow> ImageData \<Rightarrow> effect list \<times> flow" where
  "handle_request res fl fs d =
     (if ID d \<noteq> [] then
        (let fileName = ''images/'' @ ID d @ ''.jpg'' in
         if \<not> stat_fails fl \<and> lookup_file res fs fileName = None
         then ([FsStat fileName, Log (LogNotFound fileName)], Next)
         else
           (case (if open_fails fl then None else lookup_file res fs fileName) of
              None \<Rightarrow> ([FsStat fileName, FsOpen fileName, Log LogOpenFailed], Next)
            | Some imgBytes \<Rightarrow>
                if fstat_fails fl then ([FsStat fileName, FsOpen fileName], Panic)
                else if read_fails fl
                then ([FsStat fileName, FsOpen fileName, Log LogFileReadFailed], Next)
                else
                  (let encodedImage = EncodeToString imgBytes;
                       responseData = ''data:image/jpg;base64,'' @ encodedImage in
                   if send_fails fl
                   then ([FsStat fileName, FsOpen fileName, Log LogSendFailed], Next)
                   else ([FsStat fileName, FsOpen fileName, WsWrite responseData,
                          Log (LogSent fileName)], Next))))
      else ([], Next))"

subsection \<open>The loop\<close>

text \<open>One iteration after a successful \<^verbatim>\<open>ReadMessage\<close> [40-118].\<close>

definition process ::
  "(string \<Rightarrow> 'k option) \<Rightarrow> faults \<Rightarrow> ('k \<rightharpoonup> bytes) \<Rightarrow> body
     \<Rightarrow> ('k \<rightharpoonup> bytes) \<times> effect list \<times> flow" where
  "process res fl fs message =
     (case Unmarshal message of
        (imgData, Some err) \<Rightarrow> (fs, [Log LogJSONDecodeFailed], Next)
      | (imgData, None) \<Rightarrow>
          if Command imgData = ''upload'' then
            (case handle_upload res fl fs imgData of (fs', es) \<Rightarrow> (fs', es, Next))
          else if Command imgData = ''request'' then
            (case handle_request res fl fs imgData of (es, fw) \<Rightarrow> (fs, es, fw))
          else (fs, [Log (LogUnknownCommand (Command imgData))], Next))"

text \<open>
  What \<^verbatim>\<open>conn.ReadMessage\<close> returns, in order: an error, or a message together with the
  faults of the environment while it is handled.
\<close>

datatype event = ReadError | Message body faults

text \<open>
  Where the handler stands after the events: still in the loop, waiting for the next
  message, or out of it.
\<close>

datatype ending =
    Reading       \<comment> \<open>blocked in \<^verbatim>\<open>ReadMessage\<close>, connection open\<close>
  | ReadFailed    \<comment> \<open>left the loop at [37]\<close>
  | Panicked      \<comment> \<open>unwound by a panic\<close>
  | NotUpgraded   \<comment> \<open>returned at [29]\<close>

fun read_loop ::
  "(string \<Rightarrow> 'k option) \<Rightarrow> ('k \<rightharpoonup> bytes) \<Rightarrow> event list
     \<Rightarrow> ('k \<rightharpoonup> bytes) \<times> effect list \<times> ending" where
  "read_loop res fs [] = (fs, [], Reading)"
| "read_loop res fs (ReadError # evs) = (fs, [Log LogReadFailed], ReadFailed)"
| "read_loop res fs (Message message fl # evs) =
     (case process res fl fs message of
        (fs', es, Panic) \<Rightarrow> (fs', es, Panicked)
      | (fs', es, Next) \<Rightarrow>
          (case read_loop res fs' evs of (fs'', es', e) \<Rightarrow> (fs'', es @ es', e)))"

text \<open>
  The whole handler [25-120]: the upgrade, the loop, and the deferred close once the loop
  is left.
\<close>

definition handleWebSocket ::
  "(string \<Rightarrow> 'k option) \<Rightarrow> ('k \<rightharpoonup> bytes) \<Rightarrow> bool \<Rightarrow> event list
     \<Rightarrow> ('k \<rightharpoonup> bytes) \<times> effect list \<times> ending" where
  "handleWebSocket res fs upgrade_ok evs =
     (if \<not> upgrade_ok then (fs, [Log LogUpgradeFailed], NotUpgraded)
      else
        (case read_loop res fs evs of
           (fs', es, e) \<Rightarrow> (fs', if e = Reading then es else es @ [WsClose], e)))"

text \<open>
  The wire messages of the protocol, as the JSON objects a client sends, and a resolver
  for examples: it does what every POSIX system does with repeated separators and with
  \<^verbatim>\<open>.\<close> components, which do not change the file a path names, and with
  \<^verbatim>\<open>..\<close>; it takes every directory on the way to exist and none to be a symbolic link.
\<close>

definition upload_msg :: "string \<Rightarrow> string \<Rightarrow> body" where
  "upload_msg i payload =
     JSON (JObject [(''command'', JString ''upload''), (''id'', JString i),
                    (''base64Img'', JString payload)])"

definition request_msg :: "string \<Rightarrow> body" where
  "request_msg i = JSON (JObject [(''command'', JString ''request''), (''id'', JString i)])"

fun split_path :: "string \<Rightarrow> string \<Rightarrow> string list" where
  "split_path cur [] = [cur]"
| "split_path cur (c # s) =
     (if c = CHR ''/'' then cur # split_path [] s else split_path (cur @ [c]) s)"

text \<open>
  The components of a path are walked from the working directory; \<open>up\<close> holds, innermost
  first, the directories entered so far. An empty component and \<^verbatim>\<open>.\<close> stay where
  they are, \<^verbatim>\<open>..\<close> leaves the directory entered last, and above the working directory
  it is kept.
\<close>

fun walk_components :: "string list \<Rightarrow> string list \<Rightarrow> string list" where
  "walk_components up [] = rev up"
| "walk_components up (c # cs) =
     (if c = [] \<or> c = ''.'' then walk_components up cs
      else if c = ''..'' then
        (case up of
           [] \<Rightarrow> walk_components [''..''] cs
         | p # ps \<Rightarrow>
             if p = ''..'' then walk_components (''..'' # up) cs else walk_components ps cs)
      else walk_components (c # up) cs)"

definition posix_resolve :: "string \<Rightarrow> string list option" where
  "posix_resolve path = Some (walk_components [] (split_path [] path))"

text \<open>
  The payload the specification expects in an upload, and the envelope a message body
  decodes to when decoding succeeds.
\<close>

definition data_uri :: "string \<Rightarrow> string \<Rightarrow> string" where
  "data_uri x b64 = ''data:image/'' @ x @ '';base64,'' @ b64"

definition envelope_of :: "body \<Rightarrow> ImageData option" where
  "envelope_of m = (case Unmarshal m of (d, None) \<Rightarrow> Some d | (d, Some err) \<Rightarrow> None)"

section \<open>Auxiliary facts\<close>

subsection \<open>Decoding what the encoder produced\<close>

lemma length_encodeStd: "length encodeStd = 64"
  by (simp add: encodeStd_def)

lemma distinct_encodeStd: "distinct encodeStd"
  by (simp add: encodeStd_def)

lemma index_of_nth: "distinct xs \<Longrightarrow> n < length xs \<Longrightarrow> index_of xs (xs ! n) = Some n"
proof (induction xs arbitrary: n)
  case Nil
  then show ?case by simp
next
  case (Cons x xs)
  show ?case
  proof (cases n)
    case 0
    then show ?thesis by simp
  next
    case (Suc m)
    with Cons.prems have "xs ! m \<in> set xs" "x \<notin> set xs" by auto
    then have "x \<noteq> xs ! m" by auto
    with Cons Suc show ?thesis by simp
  qed
qed

lemma decodeMap_encode6: "decodeMap (encode6 n) = Some (n mod 64)"
  unfolding decodeMap_def encode6_def
  by (rule index_of_nth) (simp_all add: length_encodeStd distinct_encodeStd)

lemma decodeMap_padChar: "decodeMap padChar = None"
  by code_simp

lemma padChar_not_newline: "\<not> is_newline padChar"
  by code_simp

lemma of_char_less_256: "of_char (c :: char) < (256 :: nat)"
proof -
  have "of_char c = (of_char c :: nat) mod 256" by simp
  also have "\<dots> < 256" by (rule mod_less_divisor) simp
  finally show ?thesis .
qed

text \<open>Four 6-bit digits of a 24-bit value put the value together again.\<close>

lemma sextets_recombine:
  fixes val :: nat
  assumes "val < 16777216"
  shows "(val div 262144 mod 64) * 262144 + (val div 4096 mod 64) * 4096
       + (val div 64 mod 64) * 64 + val mod 64 = val"
proof -
  define q1 where "q1 = val div 64"
  define q2 where "q2 = q1 div 64"
  define q3 where "q3 = q2 div 64"
  have d2: "val div 4096 = q2"
    unfolding q2_def q1_def by (simp add: div_mult2_eq [symmetric])
  have d3: "val div 262144 = q3"
    unfolding q3_def q2_def q1_def by (simp add: div_mult2_eq [symmetric])
  have "q3 < 64"
    using assms unfolding d3 [symmetric] by (simp add: less_mult_imp_div_less)
  then have m3: "q3 mod 64 = q3" by simp
  have f1: "val = 64 * q1 + val mod 64" unfolding q1_def by simp
  have f2: "q1 = 64 * q2 + q1 mod 64" unfolding q2_def by simp
  have f3: "q2 = 64 * q3 + q2 mod 64" unfolding q3_def by simp
  have "val = 262144 * q3 + 4096 * (q2 mod 64) + 64 * (q1 mod 64) + val mod 64"
    using f1 f2 f3 by linarith
  then show ?thesis
    unfolding d2 d3 m3 unfolding q1_def [symmetric] by linarith
qed

lemma bytes_split:
  fixes a b c :: nat
  assumes "a < 256" "b < 256" "c < 256"
  shows "(a * 65536 + b * 256 + c) div 65536 mod 256 = a"
    and "(a * 65536 + b * 256 + c) div 256 mod 256 = b"
    and "(a * 65536 + b * 256 + c) mod 256 = c"
proof -
  have e1: "a * 65536 + b * 256 + c = (b * 256 + c) + a * 65536" by simp
  have e2: "a * 65536 + b * 256 + c = c + (a * 256 + b) * 256" by simp
  have r: "b * 256 + c < 65536" using assms by linarith
  have "(a * 65536 + b * 256 + c) div 65536 = a"
    unfolding e1 using r by (simp only: div_mult_self1 div_less)
  then show "(a * 65536 + b * 256 + c) div 65536 mod 256 = a"
    using assms by simp
  have "(a * 65536 + b * 256 + c) div 256 = a * 256 + b"
    unfolding e2 using assms by (simp only: div_mult_self1 div_less)
  then show "(a * 65536 + b * 256 + c) div 256 mod 256 = b"
    using assms by simp
  show "(a * 65536 + b * 256 + c) mod 256 = c"
    unfolding e2 using assms by (simp only: mod_mult_self1 mod_less)
qed

lemma quantum3:
  fixes a b c :: char
  defines "val \<equiv> of_char a * 65536 + of_char b * 256 + (of_char c :: nat)"
  shows "quantum_bytes [val div 262144 mod 64, val div 4096 mod 64, val div 64 mod 64, val mod 64]
           = [a, b, c]"
proof -
  have bd: "(of_char a :: nat) < 256" "(of_char b :: nat) < 256" "(of_char c :: nat) < 256"
    by (rule of_char_less_256)+
  then have "val < 16777216" unfolding val_def by linarith
  then have rc: "(val div 262144 mod 64) * 262144 + (val div 4096 mod 64) * 4096
       + (val div 64 mod 64) * 64 + val mod 64 = val"
    by (rule sextets_recombine)
  have "char_of (val div 65536) = char_of (val div 65536 mod 256)"
       "char_of (val div 256) = char_of (val div 256 mod 256)"
       "char_of val = char_of (val mod 256)"
    by simp_all
  then have "[char_of (val div 65536), char_of (val div 256), char_of val] = [a, b, c]"
    unfolding val_def using bytes_split [OF bd] by (simp only: char_of_char)
  then show ?thesis
    unfolding quantum_bytes_def
    by (simp only: Let_def nth_Cons_0 nth_Cons_Suc rc One_nat_def numeral_2_eq_2 numeral_3_eq_3)
qed

lemma quantum2:
  fixes a b :: char
  defines "val \<equiv> of_char a * 65536 + of_char b * (256 :: nat)"
  shows "take 2 (quantum_bytes [val div 262144 mod 64, val div 4096 mod 64, val div 64 mod 64, 0])
           = [a, b]"
proof -
  have v: "val = of_char a * 65536 + of_char b * 256 + (of_char (CHR 0x00) :: nat)"
    unfolding val_def by simp
  have "val = (of_char a * 1024 + of_char b * 4) * 64" unfolding val_def by simp
  then have "val mod 64 = 0" by simp
  then have "quantum_bytes [val div 262144 mod 64, val div 4096 mod 64, val div 64 mod 64, 0]
      = [a, b, CHR 0x00]"
    using quantum3 [of a b "CHR 0x00"] unfolding v [symmetric] by simp
  then show ?thesis by simp
qed

lemma quantum1:
  fixes a :: char
  defines "val \<equiv> of_char a * (65536 :: nat)"
  shows "take 1 (quantum_bytes [val div 262144 mod 64, val div 4096 mod 64, 0, 0]) = [a]"
proof -
  have v: "val = of_char a * 65536 + of_char (CHR 0x00) * 256 + (of_char (CHR 0x00) :: nat)"
    unfolding val_def by simp
  have "val = (of_char a * 1024) * 64" unfolding val_def by simp
  then have m: "val mod 64 = 0" by simp
  have "val div 64 = (of_char a * 16) * 64" unfolding val_def by simp
  then have "val div 64 mod 64 = 0" by simp
  with m have "quantum_bytes [val div 262144 mod 64, val div 4096 mod 64, 0, 0]
      = [a, CHR 0x00, CHR 0x00]"
    using quantum3 [of a "CHR 0x00" "CHR 0x00"] unfolding v [symmetric] by simp
  then show ?thesis by simp
qed

lemma decode_step4:
  "decode_from [] (encode6 w # encode6 x # encode6 y # encode6 z # rest)
     = map_option (\<lambda>r. quantum_bytes [w mod 64, x mod 64, y mod 64, z mod 64] @ r)
         (decode_from [] rest)"
  by (simp add: decodeMap_encode6)

lemma decode_pad1:
  "decode_from [] [encode6 w, encode6 x, encode6 y, padChar]
     = Some (take 2 (quantum_bytes [w mod 64, x mod 64, y mod 64, 0]))"
  by (simp add: decodeMap_encode6 decodeMap_padChar padChar_not_newline)

lemma decode_pad2:
  "decode_from [] [encode6 w, encode6 x, padChar, padChar]
     = Some (take 1 (quantum_bytes [w mod 64, x mod 64, 0, 0]))"
  by (simp add: decodeMap_encode6 decodeMap_padChar padChar_not_newline)

lemma decode_encode: "decode_from [] (EncodeToString bs) = Some bs"
proof (induction bs rule: EncodeToString.induct)
  case (1 a b c rest)
  show ?case
    unfolding EncodeToString.simps Let_def decode_step4
    by (simp only: "1.IH" quantum3 option.map append_Cons append_Nil)
next
  case (2 a b)
  show ?case
    unfolding EncodeToString.simps Let_def decode_pad1
    by (simp only: quantum2)
next
  case (3 a)
  show ?case
    unfolding EncodeToString.simps Let_def decode_pad2
    by (simp only: quantum1)
next
  case 4
  show ?case by simp
qed

lemma DecodeString_EncodeToString: "DecodeString (EncodeToString bs) = Some bs"
  by (simp only: DecodeString_def decode_encode)

subsection \<open>The first comma\<close>

lemma Index_comma_absent: "CHR '','' \<notin> set s \<Longrightarrow> Index s '','' = - 1"
  by (induction s) (auto simp: Let_def)

lemma Index_comma_first:
  "CHR '','' \<notin> set a \<Longrightarrow> Index (a @ CHR '','' # b) '','' = int (length a)"
  by (induction a) (auto simp: Let_def)

lemma data_uri_split:
  assumes "CHR '','' \<notin> set x"
  shows "HasPrefix (data_uri x b64) ''data:image/''"
    and "Index (data_uri x b64) '','' = int (length x) + 18"
    and "drop (nat (Index (data_uri x b64) '','' + 1)) (data_uri x b64) = b64"
proof -
  define a where "a = ''data:image/'' @ x @ '';base64''"
  have e: "data_uri x b64 = a @ CHR '','' # b64"
    by (simp add: data_uri_def a_def)
  have n: "CHR '','' \<notin> set a"
    using assms by (simp add: a_def)
  have l: "length a = length x + 18" by (simp add: a_def)
  show "HasPrefix (data_uri x b64) ''data:image/''"
    by (simp add: HasPrefix_def data_uri_def)
  show i: "Index (data_uri x b64) '','' = int (length x) + 18"
    unfolding e using Index_comma_first [OF n, of b64] l by simp
  have "nat (int (length x) + 18 + 1) = length a + 1" using l by simp
  then show "drop (nat (Index (data_uri x b64) '','' + 1)) (data_uri x b64) = b64"
    unfolding i unfolding e by simp
qed

subsection \<open>Decoding the wire messages\<close>

lemma field_of_key_command: "field_of_key ''command'' = Some FCommand"
  by (simp add: field_of_key_def field_name_def)

lemma field_of_key_id: "field_of_key ''id'' = Some FID"
  by (simp add: field_of_key_def field_name_def)

lemma field_of_key_base64Img: "field_of_key ''base64Img'' = Some FBase64Img"
  by (simp add: field_of_key_def field_name_def)

lemma Unmarshal_upload_msg:
  "Unmarshal (upload_msg i p) = (\<lparr>Command = ''upload'', ID = i, Base64Img = p\<rparr>, None)"
  by (simp add: Unmarshal_def maxNestingDepth_def upload_msg_def zero_ImageData_def set_field_def
      field_of_key_command field_of_key_id field_of_key_base64Img)

lemma Unmarshal_request_msg:
  "Unmarshal (request_msg i) = (\<lparr>Command = ''request'', ID = i, Base64Img = []\<rparr>, None)"
  by (simp add: Unmarshal_def maxNestingDepth_def request_msg_def zero_ImageData_def set_field_def
      field_of_key_command field_of_key_id)

lemma envelope_of_upload_msg:
  "envelope_of (upload_msg i p) = Some \<lparr>Command = ''upload'', ID = i, Base64Img = p\<rparr>"
  by (simp add: envelope_of_def Unmarshal_upload_msg)

lemma envelope_of_request_msg:
  "envelope_of (request_msg i) = Some \<lparr>Command = ''request'', ID = i, Base64Img = []\<rparr>"
  by (simp add: envelope_of_def Unmarshal_request_msg)

subsection \<open>One iteration, by the outcome of decoding\<close>

lemma process_undecodable:
  "envelope_of m = None \<Longrightarrow> process res fl fs m = (fs, [Log LogJSONDecodeFailed], Next)"
  by (auto simp: envelope_of_def process_def split: prod.splits option.splits)

lemma process_upload:
  "envelope_of m = Some d \<Longrightarrow> Command d = ''upload'' \<Longrightarrow>
   process res fl fs m = (fst (handle_upload res fl fs d), snd (handle_upload res fl fs d), Next)"
  by (auto simp: envelope_of_def process_def split: prod.splits option.splits)

lemma process_request:
  "envelope_of m = Some d \<Longrightarrow> Command d = ''request'' \<Longrightarrow>
   process res fl fs m = (fs, fst (handle_request res fl fs d), snd (handle_request res fl fs d))"
  by (auto simp: envelope_of_def process_def split: prod.splits option.splits)

lemma process_unknown:
  "envelope_of m = Some d \<Longrightarrow> Command d \<noteq> ''upload'' \<Longrightarrow> Command d \<noteq> ''request'' \<Longrightarrow>
   process res fl fs m = (fs, [Log (LogUnknownCommand (Command d))], Next)"
  by (auto simp: envelope_of_def process_def split: prod.splits option.splits)

lemma handle_upload_stored:
  assumes "HasPrefix (Base64Img d) ''data:image/''"
    and "0 \<le> Index (Base64Img d) '',''"
    and "DecodeString (drop (nat (Index (Base64Img d) '','' + 1)) (Base64Img d)) = Some bs"
    and "\<not> create_fails fl" and "write_fails fl = None"
    and "res (''images/'' @ ID d @ ''.jpg'') = Some k"
  shows "handle_upload res fl fs d =
           (fs(k \<mapsto> bs),
            [FsCreate (''images/'' @ ID d @ ''.jpg''), Log (LogSaved (ID d @ ''.jpg''))])"
  using assms by (simp add: handle_upload_def Let_def)

lemma handle_request_sent:
  assumes "ID d \<noteq> []"
    and "lookup_file res fs (''images/'' @ ID d @ ''.jpg'') = Some bs"
    and "\<not> open_fails fl" and "\<not> fstat_fails fl" and "\<not> read_fails fl" and "\<not> send_fails fl"
  shows "handle_request res fl fs d =
           ([FsStat (''images/'' @ ID d @ ''.jpg''), FsOpen (''images/'' @ ID d @ ''.jpg''),
             WsWrite (''data:image/jpg;base64,'' @ EncodeToString bs),
             Log (LogSent (''images/'' @ ID d @ ''.jpg''))], Next)"
  using assms by (simp add: handle_request_def Let_def)

subsection \<open>An upload followed by a request\<close>

lemma lookup_file_upd:
  "res p = Some k \<Longrightarrow> lookup_file res (fs(k \<mapsto> bs)) p = Some bs"
  by (simp add: lookup_file_def)

lemma read_loop_upload_request:
  assumes m1: "envelope_of m1 = Some d1" "Command d1 = ''upload''"
    and p: "HasPrefix (Base64Img d1) ''data:image/''" "0 \<le> Index (Base64Img d1) '',''"
      "DecodeString (drop (nat (Index (Base64Img d1) '','' + 1)) (Base64Img d1)) = Some bs"
    and f1: "\<not> create_fails f1" "write_fails f1 = None"
    and k: "res (''images/'' @ ID d1 @ ''.jpg'') = Some k"
    and m2: "envelope_of m2 = Some d2" "Command d2 = ''request''" "ID d2 = ID d1" "ID d1 \<noteq> []"
    and f2: "\<not> open_fails f2" "\<not> fstat_fails f2" "\<not> read_fails f2" "\<not> send_fails f2"
  shows "read_loop res fs [Message m1 f1, Message m2 f2] =
           (fs(k \<mapsto> bs),
            [FsCreate (''images/'' @ ID d1 @ ''.jpg''), Log (LogSaved (ID d1 @ ''.jpg'')),
             FsStat (''images/'' @ ID d1 @ ''.jpg''), FsOpen (''images/'' @ ID d1 @ ''.jpg''),
             WsWrite (''data:image/jpg;base64,'' @ EncodeToString bs),
             Log (LogSent (''images/'' @ ID d1 @ ''.jpg''))],
            Reading)"
proof -
  have u: "process res f1 fs m1 =
      (fs(k \<mapsto> bs),
       [FsCreate (''images/'' @ ID d1 @ ''.jpg''), Log (LogSaved (ID d1 @ ''.jpg''))], Next)"
    using p f1 k by (simp add: process_upload [OF m1] handle_upload_stored)
  have l: "lookup_file res (fs(k \<mapsto> bs)) (''images/'' @ ID d2 @ ''.jpg'') = Some bs"
    using k m2(3) by (simp add: lookup_file_upd)
  have r: "process res f2 (fs(k \<mapsto> bs)) m2 =
      (fs(k \<mapsto> bs),
       [FsStat (''images/'' @ ID d1 @ ''.jpg''), FsOpen (''images/'' @ ID d1 @ ''.jpg''),
        WsWrite (''data:image/jpg;base64,'' @ EncodeToString bs),
        Log (LogSent (''images/'' @ ID d1 @ ''.jpg''))], Next)"
    using m2(3,4) l f2 by (simp add: process_request [OF m2(1,2)] handle_request_sent)
  show ?thesis by (simp add: u r)
qed

lemmas b64_eval = DecodeString_def decodeMap_def encodeStd_def is_newline_def padChar_def
  quantum_bytes_def char_of_eq_iff take_bit_eq_mod encode6_def

lemma DecodeString_QR: "DecodeString ''QR=='' = Some ''A''"
  by (simp add: b64_eval)

lemma EncodeToString_A: "EncodeToString ''A'' = ''QQ==''"
  by (simp add: b64_eval)

subsection \<open>The loop after one message, and an empty segment\<close>

lemma responses_append: "responses (es @ es') = responses es @ responses es'"
  by (induction es rule: responses.induct) simp_all

lemma read_loop_Next:
  "process res fl fs m = (fs', es, Next) \<Longrightarrow>
   read_loop res fs (Message m fl # evs) =
     (fst (read_loop res fs' evs), es @ fst (snd (read_loop res fs' evs)),
      snd (snd (read_loop res fs' evs)))"
  by (simp split: prod.splits)

lemma Index_comma_present: "CHR '','' \<in> set s \<Longrightarrow> 0 \<le> Index s '',''"
  by (induction s) (auto simp: Let_def)

lemma DecodeString_Nil: "DecodeString [] = Some []"
  by (simp add: DecodeString_def)

lemma payload_ending_at_comma:
  assumes "CHR '','' \<notin> set x"
  shows "HasPrefix (''data:image/'' @ x @ '','') ''data:image/''"
    and "Index (''data:image/'' @ x @ '','') '','' = int (length x) + 11"
    and "drop (nat (Index (''data:image/'' @ x @ '','') '','' + 1)) (''data:image/'' @ x @ '','') = []"
proof -
  define a where "a = ''data:image/'' @ x"
  have e: "''data:image/'' @ x @ '','' = a @ CHR '','' # []"
    by (simp add: a_def)
  have n: "CHR '','' \<notin> set a"
    using assms by (simp add: a_def)
  have l: "length a = length x + 11" by (simp add: a_def)
  show "HasPrefix (''data:image/'' @ x @ '','') ''data:image/''"
    by (simp add: HasPrefix_def)
  show i: "Index (''data:image/'' @ x @ '','') '','' = int (length x) + 11"
    unfolding e using Index_comma_first [OF n, of "[]"] l by simp
  have "nat (int (length x) + 11 + 1) = length a + 1" using l by simp
  then show "drop (nat (Index (''data:image/'' @ x @ '','') '','' + 1)) (''data:image/'' @ x @ '','') = []"
    unfolding i unfolding e by simp
qed

lemma handle_upload_empty_segment:
  assumes "Base64Img d = ''data:image/'' @ x @ '',''" and "CHR '','' \<notin> set x"
  shows "handle_upload res fl fs d =
     (let fileName = ID d @ ''.jpg''; path = ''images/'' @ fileName in
      case (if create_fails fl then None else res path) of
        None \<Rightarrow> (fs, [FsCreate path, Log LogCreateFailed])
      | Some k \<Rightarrow>
          (fs(k \<mapsto> []),
           [FsCreate path,
            Log (case write_fails fl of None \<Rightarrow> LogSaved fileName | Some n \<Rightarrow> LogWriteFailed)]))"
proof -
  have 1: "HasPrefix (Base64Img d) ''data:image/''"
    unfolding assms(1) by (rule payload_ending_at_comma(1) [OF assms(2)])
  have 2: "\<not> Index (Base64Img d) '','' + 1 \<le> 0"
    unfolding assms(1) payload_ending_at_comma(2) [OF assms(2)] by simp
  have 3: "DecodeString (drop (nat (Index (Base64Img d) '','' + 1)) (Base64Img d)) = Some []"
    unfolding assms(1) payload_ending_at_comma(3) [OF assms(2)] by (rule DecodeString_Nil)
  show ?thesis
    unfolding handle_upload_def Let_def
    by (simp only: 1 2 3 if_True if_False option.case)
       (simp split: option.splits)
qed

subsection \<open>Requests for a missing file\<close>

lemma handle_request_missing:
  assumes "lookup_file res fs (''images/'' @ ID d @ ''.jpg'') = None"
  shows "handle_request res fl fs d =
     (if ID d = [] then []
      else if stat_fails fl
      then [FsStat (''images/'' @ ID d @ ''.jpg''), FsOpen (''images/'' @ ID d @ ''.jpg''),
            Log LogOpenFailed]
      else [FsStat (''images/'' @ ID d @ ''.jpg''), Log (LogNotFound (''images/'' @ ID d @ ''.jpg''))],
      Next)"
  using assms by (simp add: handle_request_def Let_def)

lemma process_request_missing:
  assumes "envelope_of m = Some d" and "Command d = ''request''"
    and "lookup_file res fs (''images/'' @ ID d @ ''.jpg'') = None"
  shows "process res fl fs m =
     (fs,
      if ID d = [] then []
      else if stat_fails fl
      then [FsStat (''images/'' @ ID d @ ''.jpg''), FsOpen (''images/'' @ ID d @ ''.jpg''),
            Log LogOpenFailed]
      else [FsStat (''images/'' @ ID d @ ''.jpg''), Log (LogNotFound (''images/'' @ ID d @ ''.jpg''))],
      Next)"
  by (simp add: process_request [OF assms(1,2)] handle_request_missing [OF assms(3)])

lemma responses_request_missing:
  "responses
     (if i = [] then []
      else if sf
      then [FsStat p, FsOpen p, Log LogOpenFailed]
      else [FsStat p, Log (LogNotFound p)]) = []"
  by simp

subsection \<open>Bodies that do not decode\<close>

lemma envelope_of_None_iff: "envelope_of m = None \<longleftrightarrow> snd (Unmarshal m) \<noteq> None"
  by (auto simp: envelope_of_def split: prod.splits option.splits)

lemma process_empty_object:
  "process res fl fs (JSON (JObject [])) = (fs, [Log (LogUnknownCommand [])], Next)"
  by (simp add: process_def Unmarshal_def maxNestingDepth_def zero_ImageData_def)

subsection \<open>A failed send\<close>

lemma handle_request_send_failed:
  assumes "ID d \<noteq> []"
    and "lookup_file res fs (''images/'' @ ID d @ ''.jpg'') = Some bs"
    and "\<not> open_fails fl" and "\<not> fstat_fails fl" and "\<not> read_fails fl" and "send_fails fl"
  shows "handle_request res fl fs d =
           ([FsStat (''images/'' @ ID d @ ''.jpg''), FsOpen (''images/'' @ ID d @ ''.jpg''),
             Log LogSendFailed], Next)"
  using assms by (simp add: handle_request_def Let_def)

lemma DecodeString_QQ: "DecodeString ''QQ=='' = Some ''A''"
  by (simp add: b64_eval)

subsection \<open>Paths and responses of one message\<close>

lemma handle_upload_paths:
  "set (fs_paths (snd (handle_upload res fl fs d))) \<subseteq> {''images/'' @ ID d @ ''.jpg''}"
  by (simp add: handle_upload_def Let_def split: option.splits)

lemma handle_upload_responses: "responses (snd (handle_upload res fl fs d)) = []"
  by (simp add: handle_upload_def Let_def split: option.splits)

lemma handle_upload_store:
  "res (''images/'' @ ID d @ ''.jpg'') \<noteq> Some k \<Longrightarrow> fst (handle_upload res fl fs d) k = fs k"
  by (auto simp: handle_upload_def Let_def split: option.splits if_splits)

lemma handle_request_paths:
  "set (fs_paths (fst (handle_request res fl fs d))) \<subseteq> {''images/'' @ ID d @ ''.jpg''}"
  by (simp add: handle_request_def Let_def split: option.splits)

lemma handle_request_responses:
  "r \<in> set (responses (fst (handle_request res fl fs d))) \<Longrightarrow>
   \<exists>bs. lookup_file res fs (''images/'' @ ID d @ ''.jpg'') = Some bs
       \<and> r = ''data:image/jpg;base64,'' @ EncodeToString bs"
  by (auto simp: handle_request_def Let_def split: option.splits if_splits)

lemma handle_upload_create:
  "HasPrefix (Base64Img d) ''data:image/'' \<Longrightarrow> 0 \<le> Index (Base64Img d) '','' \<Longrightarrow>
   DecodeString (drop (nat (Index (Base64Img d) '','' + 1)) (Base64Img d)) = Some bs \<Longrightarrow>
   hd (snd (handle_upload res fl fs d)) = FsCreate (''images/'' @ ID d @ ''.jpg'')"
  by (simp add: handle_upload_def Let_def split: option.splits)

lemma handle_request_stat:
  "ID d \<noteq> [] \<Longrightarrow> hd (fst (handle_request res fl fs d)) = FsStat (''images/'' @ ID d @ ''.jpg'')"
  by (simp add: handle_request_def Let_def split: option.splits)

subsection \<open>Two uploads\<close>

lemma read_loop_two_uploads:
  assumes m1: "envelope_of m1 = Some d1" "Command d1 = ''upload''"
    and p1: "HasPrefix (Base64Img d1) ''data:image/''" "0 \<le> Index (Base64Img d1) '',''"
      "DecodeString (drop (nat (Index (Base64Img d1) '','' + 1)) (Base64Img d1)) = Some bs1"
    and f1: "\<not> create_fails f1" "write_fails f1 = None"
    and m2: "envelope_of m2 = Some d2" "Command d2 = ''upload''" "ID d2 = ID d1"
    and p2: "HasPrefix (Base64Img d2) ''data:image/''" "0 \<le> Index (Base64Img d2) '',''"
      "DecodeString (drop (nat (Index (Base64Img d2) '','' + 1)) (Base64Img d2)) = Some bs2"
    and f2: "\<not> create_fails f2" "write_fails f2 = None"
    and k: "res (''images/'' @ ID d1 @ ''.jpg'') = Some k"
  shows "read_loop res fs (Message m1 f1 # Message m2 f2 # evs) =
           (fst (read_loop res (fs(k \<mapsto> bs2)) evs),
            [FsCreate (''images/'' @ ID d1 @ ''.jpg''), Log (LogSaved (ID d1 @ ''.jpg'')),
             FsCreate (''images/'' @ ID d1 @ ''.jpg''), Log (LogSaved (ID d1 @ ''.jpg''))]
              @ fst (snd (read_loop res (fs(k \<mapsto> bs2)) evs)),
            snd (snd (read_loop res (fs(k \<mapsto> bs2)) evs)))"
proof -
  have u1: "process res f1 fs m1 =
      (fs(k \<mapsto> bs1),
       [FsCreate (''images/'' @ ID d1 @ ''.jpg''), Log (LogSaved (ID d1 @ ''.jpg''))], Next)"
    using p1 f1 k by (simp add: process_upload [OF m1] handle_upload_stored)
  from k m2(3) have k2: "res (''images/'' @ ID d2 @ ''.jpg'') = Some k" by simp
  have u2: "process res f2 (fs(k \<mapsto> bs1)) m2 =
      (fs(k \<mapsto> bs2),
       [FsCreate (''images/'' @ ID d1 @ ''.jpg''), Log (LogSaved (ID d1 @ ''.jpg''))], Next)"
    using p2 f2 k2 m2(3) by (simp add: process_upload [OF m2(1,2)] handle_upload_stored)
  show ?thesis
    unfolding read_loop_Next [OF u1] read_loop_Next [OF u2] by simp
qed

lemma DecodeString_Qg: "DecodeString ''Qg=='' = Some ''B''"
  by (simp add: b64_eval)

lemma EncodeToString_B: "EncodeToString ''B'' = ''Qg==''"
  by (simp add: b64_eval)

subsection \<open>Paths of the example resolver\<close>

lemma posix_resolve_empty_id: "posix_resolve ''images/.jpg'' = Some [''images'', ''.jpg'']"
  by (simp add: posix_resolve_def)

lemma posix_resolve_dot_id: "posix_resolve ''images/./.jpg'' = Some [''images'', ''.jpg'']"
  by (simp add: posix_resolve_def)

subsection \<open>Members of an object\<close>








subsection \<open>Uploads that are rejected, requests without an id\<close>

lemma process_failed_upload:
  assumes "envelope_of m = Some d" and "Command d = ''upload''"
    and "\<not> HasPrefix (Base64Img d) ''data:image/''
         \<or> CHR '','' \<notin> set (Base64Img d)
         \<or> DecodeString (drop (nat (Index (Base64Img d) '','' + 1)) (Base64Img d)) = None"
  shows "process res fl fs m =
     (fs,
      if \<not> HasPrefix (Base64Img d) ''data:image/'' then []
      else if CHR '','' \<notin> set (Base64Img d) then [Log LogNoBase64Format]
      else [Log LogBase64DecodeFailed],
      Next)"
proof -
  have "handle_upload res fl fs d =
     (fs,
      if \<not> HasPrefix (Base64Img d) ''data:image/'' then []
      else if CHR '','' \<notin> set (Base64Img d) then [Log LogNoBase64Format]
      else [Log LogBase64DecodeFailed])"
    using assms(3)
    by (auto simp: handle_upload_def Let_def Index_comma_absent
        dest: Index_comma_present split: option.splits)
  then show ?thesis
    by (simp add: process_upload [OF assms(1,2)])
qed

lemma process_request_empty_id:
  "envelope_of m = Some d \<Longrightarrow> Command d = ''request'' \<Longrightarrow> ID d = [] \<Longrightarrow>
   process res fl fs m = (fs, [], Next)"
  by (simp add: process_request handle_request_def)

lemma DecodeString_after_first_comma:
  "DecodeString (drop (nat (Index (data_uri ''a,b'' ''QQ=='') '','' + 1)) (data_uri ''a,b'' ''QQ==''))
     = None"
proof -
  have e: "data_uri ''a,b'' ''QQ=='' = ''data:image/a'' @ CHR '','' # ''b;base64,QQ==''"
    by (simp add: data_uri_def)
  have n: "CHR '','' \<notin> set ''data:image/a''" by simp
  have i: "Index (data_uri ''a,b'' ''QQ=='') '','' = 12"
    unfolding e using Index_comma_first [OF n, of "''b;base64,QQ==''"] by simp
  have d: "drop (nat (12 + 1)) (data_uri ''a,b'' ''QQ=='') = ''b;base64,QQ==''"
    unfolding e by simp
  have "DecodeString ''b;base64,QQ=='' = None"
    by (simp add: b64_eval)
  then show ?thesis
    unfolding i d .
qed

section \<open>The claims\<close>

subsection \<open>C1: upload, then request\<close>

text \<open>
  The response carries the encoding of the decoded bytes, not the text that was uploaded.
  The decoder accepts \<^verbatim>\<open>QR==\<close>, whose second digit has unused low bits set, and decodes
  it to the byte \<^verbatim>\<open>A\<close>; the encoder writes that byte as \<^verbatim>\<open>QQ==\<close>. So the text sent
  back is not the text uploaded. Two more payloads and ids of the claimed form get no
  response: when the subtype contains a comma, the handler decodes what follows that comma
  (\<^verbatim>\<open>b;base64,QQ==\<close>), which fails; and a request with the empty id does nothing.
\<close>

theorem roundtrip_not_identical_counterexample:
  "DecodeString ''QR=='' = Some ''A''
   \<and> responses (fst (snd (read_loop Some Map.empty
        [Message (upload_msg ''a'' (data_uri ''png'' ''QR=='')) no_faults,
         Message (request_msg ''a'') no_faults])))
      = [''data:image/jpg;base64,QQ=='']
   \<and> ''data:image/jpg;base64,QQ=='' \<noteq> ''data:image/jpg;base64,'' @ ''QR==''
   \<and> DecodeString ''QQ=='' = Some ''A''
   \<and> responses (fst (snd (read_loop Some Map.empty
        [Message (upload_msg ''a'' (data_uri ''a,b'' ''QQ=='')) no_faults,
         Message (request_msg ''a'') no_faults])))
      = []
   \<and> responses (fst (snd (read_loop Some Map.empty
        [Message (upload_msg [] (data_uri ''png'' ''QQ=='')) no_faults,
         Message (request_msg []) no_faults])))
      = []"
proof -
  let ?d1 = "\<lparr>Command = ''upload'', ID = ''a'', Base64Img = data_uri ''png'' ''QR==''\<rparr>"
  let ?d2 = "\<lparr>Command = ''request'', ID = ''a'', Base64Img = []\<rparr>"
  have c: "CHR '','' \<notin> set ''png''" by simp
  have p1: "HasPrefix (Base64Img ?d1) ''data:image/''" "0 \<le> Index (Base64Img ?d1) '',''"
    by (simp_all add: data_uri_split(1,2) [OF c])
  have p2: "DecodeString (drop (nat (Index (Base64Img ?d1) '','' + 1)) (Base64Img ?d1)) = Some ''A''"
    by (simp only: ImageData.select_convs data_uri_split(3) [OF c] DecodeString_QR)
  note p = p1 p2
  have m: "envelope_of (upload_msg ''a'' (data_uri ''png'' ''QR=='')) = Some ?d1"
      "envelope_of (request_msg ''a'') = Some ?d2"
    by (rule envelope_of_upload_msg, rule envelope_of_request_msg)
  have f: "\<not> create_fails no_faults" "write_fails no_faults = None" "\<not> open_fails no_faults"
      "\<not> fstat_fails no_faults" "\<not> read_fails no_faults" "\<not> send_fails no_faults"
    by (simp_all add: no_faults_def)
  have k: "Some (''images/'' @ ID ?d1 @ ''.jpg'') = Some ''images/a.jpg''" by simp
  have i: "Command ?d1 = ''upload''" "Command ?d2 = ''request''" "ID ?d2 = ID ?d1" "ID ?d1 \<noteq> []"
    by simp_all
  have "read_loop Some Map.empty
      [Message (upload_msg ''a'' (data_uri ''png'' ''QR=='')) no_faults,
       Message (request_msg ''a'') no_faults]
    = (Map.empty(''images/a.jpg'' \<mapsto> ''A''),
       [FsCreate (''images/'' @ ID ?d1 @ ''.jpg''), Log (LogSaved (ID ?d1 @ ''.jpg'')),
        FsStat (''images/'' @ ID ?d1 @ ''.jpg''), FsOpen (''images/'' @ ID ?d1 @ ''.jpg''),
        WsWrite (''data:image/jpg;base64,'' @ EncodeToString ''A''),
        Log (LogSent (''images/'' @ ID ?d1 @ ''.jpg''))], Reading)"
    by (rule read_loop_upload_request [where res = Some, OF m(1) i(1) p f(1,2) k m(2) i(2,3,4) f(3-6)])
  then have 1: "responses (fst (snd (read_loop Some Map.empty
        [Message (upload_msg ''a'' (data_uri ''png'' ''QR=='')) no_faults,
         Message (request_msg ''a'') no_faults])))
      = [''data:image/jpg;base64,QQ=='']"
    by (simp add: encode6_def encodeStd_def padChar_def del: read_loop.simps)
  \<comment> \<open>a comma in the subtype\<close>
  let ?d3 = "\<lparr>Command = ''upload'', ID = ''a'', Base64Img = data_uri ''a,b'' ''QQ==''\<rparr>"
  have r3: "\<not> HasPrefix (Base64Img ?d3) ''data:image/''
         \<or> CHR '','' \<notin> set (Base64Img ?d3)
         \<or> DecodeString (drop (nat (Index (Base64Img ?d3) '','' + 1)) (Base64Img ?d3)) = None"
    by (simp only: ImageData.select_convs DecodeString_after_first_comma simp_thms)
  have u3: "process Some no_faults Map.empty (upload_msg ''a'' (data_uri ''a,b'' ''QQ==''))
      = (Map.empty, [Log LogBase64DecodeFailed], Next)"
    unfolding process_failed_upload [OF envelope_of_upload_msg _ r3, simplified]
    by (simp add: data_uri_def HasPrefix_def)
  have l: "lookup_file Some Map.empty (''images/'' @ ID ?d2 @ ''.jpg'') = None"
    by (simp add: lookup_file_def)
  have q3: "process Some no_faults Map.empty (request_msg ''a'')
      = (Map.empty, [FsStat ''images/a.jpg'', Log (LogNotFound ''images/a.jpg'')], Next)"
    unfolding process_request_missing [OF m(2) i(2) l] by (simp add: no_faults_def)
  have 2: "responses (fst (snd (read_loop Some Map.empty
        [Message (upload_msg ''a'' (data_uri ''a,b'' ''QQ=='')) no_faults,
         Message (request_msg ''a'') no_faults])))
      = []"
    unfolding read_loop_Next [OF u3] read_loop_Next [OF q3] by simp
  \<comment> \<open>the empty id\<close>
  let ?d4 = "\<lparr>Command = ''upload'', ID = [], Base64Img = data_uri ''png'' ''QQ==''\<rparr>"
  let ?d5 = "\<lparr>Command = ''request'', ID = [], Base64Img = []\<rparr>"
  have p4: "HasPrefix (Base64Img ?d4) ''data:image/''" "0 \<le> Index (Base64Img ?d4) '',''"
    by (simp_all add: data_uri_split(1,2) [OF c])
  have p5: "DecodeString (drop (nat (Index (Base64Img ?d4) '','' + 1)) (Base64Img ?d4)) = Some ''A''"
    by (simp only: ImageData.select_convs data_uri_split(3) [OF c] DecodeString_QQ)
  have k4: "Some (''images/'' @ ID ?d4 @ ''.jpg'') = Some ''images/.jpg''" by simp
  have "handle_upload Some no_faults Map.empty ?d4 =
      (Map.empty(''images/.jpg'' \<mapsto> ''A''),
       [FsCreate (''images/'' @ ID ?d4 @ ''.jpg''), Log (LogSaved (ID ?d4 @ ''.jpg''))])"
    by (rule handle_upload_stored [where res = Some, OF p4 p5 f(1,2) k4])
  then have u4: "process Some no_faults Map.empty (upload_msg [] (data_uri ''png'' ''QQ==''))
      = (Map.empty(''images/.jpg'' \<mapsto> ''A''),
         [FsCreate ''images/.jpg'', Log (LogSaved ''.jpg'')], Next)"
    by (simp add: process_upload [OF envelope_of_upload_msg])
  have q4: "process Some no_faults (Map.empty(''images/.jpg'' \<mapsto> ''A'')) (request_msg [])
      = (Map.empty(''images/.jpg'' \<mapsto> ''A''), [], Next)"
    by (rule process_request_empty_id [OF envelope_of_request_msg]) simp_all
  have 3: "responses (fst (snd (read_loop Some Map.empty
        [Message (upload_msg [] (data_uri ''png'' ''QQ=='')) no_faults,
         Message (request_msg []) no_faults])))
      = []"
    unfolding read_loop_Next [OF u4] read_loop_Next [OF q4] by simp
  have 0: "''data:image/jpg;base64,QQ=='' \<noteq> ''data:image/jpg;base64,'' @ ''QR==''" by simp
  from DecodeString_QR 1 0 DecodeString_QQ 2 3 show ?thesis by blast
qed

text \<open>
  C1, as the code has it. For every payload \<^verbatim>\<open>data:image/<x>;base64,<b64>\<close> whose
  \<^verbatim>\<open><x>\<close> contains no comma and whose \<^verbatim>\<open><b64>\<close> is the standard encoding of some
  byte string, and for every non-empty id: when the file can be created and written and
  the request can open and read it and send, handling an upload for the id and then a
  request for the same id produces exactly one response, \<^verbatim>\<open>data:image/jpg;base64,\<close>
  followed by \<^verbatim>\<open><b64>\<close>; the file holds the decoded bytes and the loop is still reading.
\<close>

theorem upload_request_roundtrip:
  assumes "envelope_of m1 = Some \<lparr>Command = ''upload'', ID = i, Base64Img = data_uri x b64\<rparr>"
    and "envelope_of m2 = Some \<lparr>Command = ''request'', ID = i, Base64Img = p2\<rparr>"
    and "b64 = EncodeToString bs"
    and "CHR '','' \<notin> set x"
    and "i \<noteq> []"
    and "res (''images/'' @ i @ ''.jpg'') = Some k"
    and "\<not> create_fails f1" and "write_fails f1 = None"
    and "\<not> open_fails f2" and "\<not> fstat_fails f2" and "\<not> read_fails f2" and "\<not> send_fails f2"
  shows "responses (fst (snd (read_loop res fs [Message m1 f1, Message m2 f2])))
           = [''data:image/jpg;base64,'' @ b64]
       \<and> fst (read_loop res fs [Message m1 f1, Message m2 f2]) = fs(k \<mapsto> bs)
       \<and> snd (snd (read_loop res fs [Message m1 f1, Message m2 f2])) = Reading"
proof -
  let ?d1 = "\<lparr>Command = ''upload'', ID = i, Base64Img = data_uri x b64\<rparr>"
  let ?d2 = "\<lparr>Command = ''request'', ID = i, Base64Img = p2\<rparr>"
  have dec: "DecodeString (drop (nat (Index (Base64Img ?d1) '','' + 1)) (Base64Img ?d1)) = Some bs"
    unfolding assms(3) ImageData.select_convs data_uri_split(3) [OF assms(4)]
    by (rule DecodeString_EncodeToString)
  have pre: "HasPrefix (Base64Img ?d1) ''data:image/''" "0 \<le> Index (Base64Img ?d1) '',''"
    using assms(4) by (simp_all add: data_uri_split(1,2))
  have "read_loop res fs [Message m1 f1, Message m2 f2] =
           (fs(k \<mapsto> bs),
            [FsCreate (''images/'' @ i @ ''.jpg''), Log (LogSaved (i @ ''.jpg'')),
             FsStat (''images/'' @ i @ ''.jpg''), FsOpen (''images/'' @ i @ ''.jpg''),
             WsWrite (''data:image/jpg;base64,'' @ EncodeToString bs),
             Log (LogSent (''images/'' @ i @ ''.jpg''))],
            Reading)"
    using read_loop_upload_request [where res = res and k = k and fs = fs and bs = bs,
        OF assms(1) _ pre dec assms(7,8) _ assms(2) _ _ _ assms(9-12)] assms(5,6)
    by simp
  then show ?thesis using assms(3) by simp
qed

theorem upload_request_roundtrip_witness:
  "''iVBORw0KGgo='' = EncodeToString [CHR 0x89, CHR ''P'', CHR ''N'', CHR ''G'', CHR 0x0D, CHR 0x0A, CHR 0x1A, CHR 0x0A]
   \<and> CHR '','' \<notin> set ''png'' \<and> ''abc'' \<noteq> []
   \<and> responses (fst (snd (read_loop Some Map.empty
         [Message (upload_msg ''abc'' (data_uri ''png'' ''iVBORw0KGgo='')) no_faults,
          Message (request_msg ''abc'') no_faults])))
       = [''data:image/jpg;base64,iVBORw0KGgo='']"
proof -
  let ?bs = "[CHR 0x89, CHR ''P'', CHR ''N'', CHR ''G'', CHR 0x0D, CHR 0x0A, CHR 0x1A, CHR 0x0A]"
  have e: "''iVBORw0KGgo='' = EncodeToString ?bs"
    by (simp add: b64_eval)
  have c: "CHR '','' \<notin> set ''png''" and i: "''abc'' \<noteq> []"
    by simp_all
  have k: "Some (''images/'' @ ''abc'' @ ''.jpg'') = Some ''images/abc.jpg''"
    by simp
  have f: "\<not> create_fails no_faults" "write_fails no_faults = None" "\<not> open_fails no_faults"
      "\<not> fstat_fails no_faults" "\<not> read_fails no_faults" "\<not> send_fails no_faults"
    by (simp_all add: no_faults_def)
  note r = upload_request_roundtrip [where res = Some and fs = Map.empty,
      OF envelope_of_upload_msg envelope_of_request_msg e c i k f]
  show ?thesis
  proof (intro conjI)
    show "''iVBORw0KGgo='' = EncodeToString ?bs" by (rule e)
    show "CHR '','' \<notin> set ''png''" by (rule c)
    show "''abc'' \<noteq> []" by (rule i)
    show "responses (fst (snd (read_loop Some Map.empty
         [Message (upload_msg ''abc'' (data_uri ''png'' ''iVBORw0KGgo='')) no_faults,
          Message (request_msg ''abc'') no_faults])))
       = [''data:image/jpg;base64,iVBORw0KGgo='']"
      using r [THEN conjunct1] by (simp del: read_loop.simps)
  qed
qed

subsection \<open>C2: an upload whose payload ends at the first comma\<close>

text \<open>
  The decoder returns no error for the empty string: it decodes to no bytes. So the
  handler does not skip such an upload. It goes on to \<^verbatim>\<open>os.Create\<close>, which creates the
  file or, if the id already has an image, truncates it, and writes nothing to it.
\<close>

theorem empty_segment_is_stored_counterexample:
  "HasPrefix ''data:image/png;base64,'' ''data:image/''
   \<and> drop (nat (Index ''data:image/png;base64,'' '','' + 1)) ''data:image/png;base64,'' = []
   \<and> fst (process Some no_faults Map.empty (upload_msg ''a'' ''data:image/png;base64,''))
         ''images/a.jpg'' = Some []
   \<and> fst (process Some no_faults [''images/a.jpg'' \<mapsto> ''A'']
          (upload_msg ''a'' ''data:image/png;base64,'')) ''images/a.jpg'' = Some []"
proof -
  let ?d = "\<lparr>Command = ''upload'', ID = ''a'', Base64Img = ''data:image/png;base64,''\<rparr>"
  have c: "CHR '','' \<notin> set ''png;base64''" by simp
  have b: "Base64Img ?d = ''data:image/'' @ ''png;base64'' @ '',''" by simp
  have h: "handle_upload Some no_faults fs ?d =
      (fs(''images/a.jpg'' \<mapsto> []), [FsCreate ''images/a.jpg'', Log (LogSaved ''a.jpg'')])" for fs
    unfolding handle_upload_empty_segment [OF b c] by (simp add: no_faults_def Let_def)
  have p: "process Some no_faults fs (upload_msg ''a'' ''data:image/png;base64,'') =
      (fs(''images/a.jpg'' \<mapsto> []), [FsCreate ''images/a.jpg'', Log (LogSaved ''a.jpg'')], Next)" for fs
    by (simp add: process_upload [OF envelope_of_upload_msg] h)
  have s: "HasPrefix ''data:image/png;base64,'' ''data:image/''"
    "drop (nat (Index ''data:image/png;base64,'' '','' + 1)) ''data:image/png;base64,'' = []"
    using payload_ending_at_comma(1,3) [OF c] by simp_all
  show ?thesis
    by (simp only: p s fst_conv fun_upd_same simp_thms)
qed

text \<open>
  C2, as the code has it. For every upload message whose payload starts with
  \<^verbatim>\<open>data:image/\<close> and ends at its first comma, the empty segment decodes to zero bytes:
  unless \<^verbatim>\<open>os.Create\<close> fails, the file of the id is created or truncated and is empty
  afterwards; otherwise the store is unchanged. In every case no response is sent and the
  loop goes on.
\<close>

theorem upload_empty_segment_stores_empty_file:
  assumes "envelope_of m = Some d" and "Command d = ''upload''"
    and "Base64Img d = ''data:image/'' @ x @ '',''" and "CHR '','' \<notin> set x"
  shows "fst (process res fl fs m) =
           (if create_fails fl then fs
            else case res (''images/'' @ ID d @ ''.jpg'') of
                   None \<Rightarrow> fs
                 | Some k \<Rightarrow> fs(k \<mapsto> []))
       \<and> responses (fst (snd (process res fl fs m))) = []
       \<and> snd (snd (process res fl fs m)) = Next"
  unfolding process_upload [OF assms(1,2)] handle_upload_empty_segment [OF assms(3,4)]
  by (simp add: Let_def split: option.splits)

theorem upload_empty_segment_stores_empty_file_witness:
  "CHR '','' \<notin> set ''png;base64''
   \<and> fst (process Some no_faults [''images/a.jpg'' \<mapsto> ''A'']
          (upload_msg ''a'' (''data:image/'' @ ''png;base64'' @ '','')))
       = [''images/a.jpg'' \<mapsto> ''A''](''images/a.jpg'' \<mapsto> [])
   \<and> responses (fst (snd (process Some no_faults [''images/a.jpg'' \<mapsto> ''A'']
          (upload_msg ''a'' (''data:image/'' @ ''png;base64'' @ '',''))))) = []
   \<and> snd (snd (process Some no_faults [''images/a.jpg'' \<mapsto> ''A'']
          (upload_msg ''a'' (''data:image/'' @ ''png;base64'' @ '','')))) = Next"
proof -
  let ?d = "\<lparr>Command = ''upload'', ID = ''a'', Base64Img = ''data:image/'' @ ''png;base64'' @ '',''\<rparr>"
  have c: "CHR '','' \<notin> set ''png;base64''" by simp
  have u: "Command ?d = ''upload''" by simp
  have b: "Base64Img ?d = ''data:image/'' @ ''png;base64'' @ '',''" by simp
  note r = upload_empty_segment_stores_empty_file [where res = Some and fl = no_faults
      and fs = "[''images/a.jpg'' \<mapsto> ''A'']", OF envelope_of_upload_msg u b c]
  have "fst (process Some no_faults [''images/a.jpg'' \<mapsto> ''A'']
          (upload_msg ''a'' (''data:image/'' @ ''png;base64'' @ '','')))
       = [''images/a.jpg'' \<mapsto> ''A''](''images/a.jpg'' \<mapsto> [])"
    unfolding r [THEN conjunct1] by (simp add: no_faults_def)
  with c r [THEN conjunct2] show ?thesis by blast
qed

subsection \<open>C3: an upload that fails before storage\<close>

text \<open>
  C3. For every upload message whose payload does not start with \<^verbatim>\<open>data:image/\<close>, or
  contains no comma, or whose segment after the first comma the decoder rejects: the store
  is unchanged, no file-system call is made, no response is sent, and the loop goes on:
  the events that follow are handled as if the upload had not been received. If the id had
  no file before, a request for that id right after it yields no response either, and the
  handler is still reading.
\<close>

theorem failed_upload_stores_nothing:
  assumes "envelope_of m = Some d" and "Command d = ''upload''"
    and "\<not> HasPrefix (Base64Img d) ''data:image/''
         \<or> CHR '','' \<notin> set (Base64Img d)
         \<or> DecodeString (drop (nat (Index (Base64Img d) '','' + 1)) (Base64Img d)) = None"
  shows "fst (process res fl fs m) = fs
       \<and> responses (fst (snd (process res fl fs m))) = []
       \<and> fs_paths (fst (snd (process res fl fs m))) = []
       \<and> snd (snd (process res fl fs m)) = Next
       \<and> fst (read_loop res fs (Message m fl # evs)) = fst (read_loop res fs evs)
       \<and> responses (fst (snd (read_loop res fs (Message m fl # evs))))
           = responses (fst (snd (read_loop res fs evs)))
       \<and> snd (snd (read_loop res fs (Message m fl # evs))) = snd (snd (read_loop res fs evs))
       \<and> (lookup_file res fs (''images/'' @ ID d @ ''.jpg'') = None \<longrightarrow>
            envelope_of m' = Some d' \<longrightarrow> Command d' = ''request'' \<longrightarrow> ID d' = ID d \<longrightarrow>
            responses (fst (snd (read_loop res fs [Message m fl, Message m' fl']))) = []
            \<and> snd (snd (read_loop res fs [Message m fl, Message m' fl'])) = Reading)"
proof -
  define es where "es =
     (if \<not> HasPrefix (Base64Img d) ''data:image/'' then []
      else if CHR '','' \<notin> set (Base64Img d) then [Log LogNoBase64Format]
      else [Log LogBase64DecodeFailed])"
  have h: "handle_upload res fl fs d = (fs, es)"
    using assms(3)
    by (auto simp: handle_upload_def es_def Let_def Index_comma_absent
        dest: Index_comma_present split: option.splits)
  have p: "process res fl fs m = (fs, es, Next)"
    by (simp add: process_upload [OF assms(1,2)] h)
  have r: "responses es = []" "fs_paths es = []"
    by (simp_all add: es_def)
  have q: "responses (fst (snd (read_loop res fs [Message m fl, Message m' fl']))) = []
            \<and> snd (snd (read_loop res fs [Message m fl, Message m' fl'])) = Reading"
    if a: "lookup_file res fs (''images/'' @ ID d @ ''.jpg'') = None"
      and b: "envelope_of m' = Some d'" "Command d' = ''request''" and c: "ID d' = ID d"
  proof -
    from a c have "lookup_file res fs (''images/'' @ ID d' @ ''.jpg'') = None" by simp
    note process_request_missing [OF b this, of fl']
    note read_loop_Next [OF this, of "[]"]
    then show ?thesis
      unfolding read_loop_Next [OF p]
      by (simp only: fst_conv snd_conv responses_append r responses_request_missing
          read_loop.simps append_Nil append_Nil2 simp_thms)
  qed
  show ?thesis
    unfolding read_loop_Next [OF p, of evs] p
    using q by (simp add: r responses_append del: read_loop.simps)
qed

theorem failed_upload_stores_nothing_witness:
  "DecodeString (drop (nat (Index (data_uri ''png'' ''@@@'') '','' + 1)) (data_uri ''png'' ''@@@'')) = None
   \<and> lookup_file Some Map.empty (''images/'' @ ''a'' @ ''.jpg'') = None
   \<and> fst (process Some no_faults Map.empty (upload_msg ''a'' (data_uri ''png'' ''@@@''))) = Map.empty
   \<and> responses (fst (snd (process Some no_faults Map.empty
        (upload_msg ''a'' (data_uri ''png'' ''@@@''))))) = []
   \<and> snd (snd (process Some no_faults Map.empty (upload_msg ''a'' (data_uri ''png'' ''@@@'')))) = Next
   \<and> responses (fst (snd (read_loop Some Map.empty
        [Message (upload_msg ''a'' (data_uri ''png'' ''@@@'')) no_faults,
         Message (request_msg ''a'') no_faults]))) = []
   \<and> snd (snd (read_loop Some Map.empty
        [Message (upload_msg ''a'' (data_uri ''png'' ''@@@'')) no_faults,
         Message (request_msg ''a'') no_faults])) = Reading"
proof -
  let ?d = "\<lparr>Command = ''upload'', ID = ''a'', Base64Img = data_uri ''png'' ''@@@''\<rparr>"
  let ?d' = "\<lparr>Command = ''request'', ID = ''a'', Base64Img = []\<rparr>"
  have c: "CHR '','' \<notin> set ''png''" by simp
  have n: "DecodeString ''@@@'' = None"
    by (simp add: b64_eval)
  have dn: "DecodeString (drop (nat (Index (data_uri ''png'' ''@@@'') '','' + 1)) (data_uri ''png'' ''@@@'')) = None"
    unfolding data_uri_split(3) [OF c] by (rule n)
  then have h: "\<not> HasPrefix (Base64Img ?d) ''data:image/''
         \<or> CHR '','' \<notin> set (Base64Img ?d)
         \<or> DecodeString (drop (nat (Index (Base64Img ?d) '','' + 1)) (Base64Img ?d)) = None"
    by simp
  have u: "Command ?d = ''upload''" by simp
  have l: "lookup_file Some Map.empty (''images/'' @ ''a'' @ ''.jpg'') = None"
    by (simp add: lookup_file_def)
  then have l': "lookup_file Some Map.empty (''images/'' @ ID ?d @ ''.jpg'') = None" by simp
  have rq: "Command ?d' = ''request''" "ID ?d' = ID ?d" by simp_all
  note r = failed_upload_stores_nothing [where res = Some and fs = Map.empty and fl = no_faults
      and fl' = no_faults and d' = ?d' and m' = "request_msg ''a''",
      OF envelope_of_upload_msg u h]
  from r have 1: "fst (process Some no_faults Map.empty (upload_msg ''a'' (data_uri ''png'' ''@@@''))) = Map.empty"
    and 2: "responses (fst (snd (process Some no_faults Map.empty
        (upload_msg ''a'' (data_uri ''png'' ''@@@''))))) = []"
    and 3: "snd (snd (process Some no_faults Map.empty (upload_msg ''a'' (data_uri ''png'' ''@@@'')))) = Next"
    by blast+
  from r l' envelope_of_request_msg [of "''a''"] rq
  have 4: "responses (fst (snd (read_loop Some Map.empty
        [Message (upload_msg ''a'' (data_uri ''png'' ''@@@'')) no_faults,
         Message (request_msg ''a'') no_faults]))) = []
   \<and> snd (snd (read_loop Some Map.empty
        [Message (upload_msg ''a'' (data_uri ''png'' ''@@@'')) no_faults,
         Message (request_msg ''a'') no_faults])) = Reading"
    by blast
  from dn l 1 2 3 4 show ?thesis by blast
qed

subsection \<open>C4: a request for an id without a file\<close>

text \<open>
  C4. For every request message with a non-empty id for which no file
  \<^verbatim>\<open>images/<id>.jpg\<close> exists, the handler sends no response, leaves the store as it is
  and goes on to the next message: the events that follow are handled as if the request
  had not been received. This holds whatever the environment does: if \<^verbatim>\<open>os.Stat\<close> fails
  with another error, \<^verbatim>\<open>os.Open\<close> fails on the missing file and the loop goes on as
  well.
\<close>

theorem request_without_file_sends_nothing:
  assumes "envelope_of m = Some d" and "Command d = ''request''" and "ID d \<noteq> []"
    and "lookup_file res fs (''images/'' @ ID d @ ''.jpg'') = None"
  shows "responses (fst (snd (process res fl fs m))) = []
       \<and> snd (snd (process res fl fs m)) = Next
       \<and> fst (process res fl fs m) = fs
       \<and> fst (read_loop res fs (Message m fl # evs)) = fst (read_loop res fs evs)
       \<and> responses (fst (snd (read_loop res fs (Message m fl # evs))))
           = responses (fst (snd (read_loop res fs evs)))
       \<and> snd (snd (read_loop res fs (Message m fl # evs))) = snd (snd (read_loop res fs evs))"
proof -
  note p = process_request_missing [OF assms(1,2,4), of fl]
  show ?thesis
    unfolding read_loop_Next [OF p, of evs] p
    by (simp only: fst_conv snd_conv responses_append responses_request_missing
        append_Nil simp_thms)
qed

theorem request_without_file_sends_nothing_witness:
  "''abc'' \<noteq> [] \<and> lookup_file Some Map.empty (''images/'' @ ''abc'' @ ''.jpg'') = None
   \<and> responses (fst (snd (process Some no_faults Map.empty (request_msg ''abc'')))) = []
   \<and> snd (snd (process Some no_faults Map.empty (request_msg ''abc''))) = Next
   \<and> snd (snd (read_loop Some Map.empty [Message (request_msg ''abc'') no_faults])) = Reading"
proof -
  let ?d = "\<lparr>Command = ''request'', ID = ''abc'', Base64Img = []\<rparr>"
  have c: "Command ?d = ''request''" and i: "ID ?d \<noteq> []" by simp_all
  have l: "lookup_file Some Map.empty (''images/'' @ ''abc'' @ ''.jpg'') = None"
    by (simp add: lookup_file_def)
  then have l': "lookup_file Some Map.empty (''images/'' @ ID ?d @ ''.jpg'') = None" by simp
  note r = request_without_file_sends_nothing [where res = Some and fs = Map.empty
      and fl = no_faults and evs = "[]", OF envelope_of_request_msg c i l']
  have e: "snd (snd (read_loop Some Map.empty [])) = Reading" by simp
  from r e have "snd (snd (read_loop Some Map.empty [Message (request_msg ''abc'') no_faults])) = Reading"
    by (simp only:)
  with r l show ?thesis by blast
qed

subsection \<open>C5: a body that does not decode\<close>

text \<open>
  C5. For every message whose decoding fails, the handler logs the failure, leaves the
  store as it is, sends nothing and goes on: the run on the remaining events is the run
  they would have had without the message, with the one log line in front.
\<close>

theorem decode_failure_is_skipped:
  assumes "snd (Unmarshal m) = Some err"
  shows "process res fl fs m = (fs, [Log LogJSONDecodeFailed], Next)
       \<and> read_loop res fs (Message m fl # evs) =
           (fst (read_loop res fs evs),
            Log LogJSONDecodeFailed # fst (snd (read_loop res fs evs)),
            snd (snd (read_loop res fs evs)))
       \<and> responses (fst (snd (read_loop res fs (Message m fl # evs))))
           = responses (fst (snd (read_loop res fs evs)))
       \<and> fs_paths (fst (snd (read_loop res fs (Message m fl # evs))))
           = fs_paths (fst (snd (read_loop res fs evs)))"
proof -
  from assms have "envelope_of m = None" by (simp add: envelope_of_None_iff)
  then have p: "process res fl fs m = (fs, [Log LogJSONDecodeFailed], Next)"
    by (rule process_undecodable)
  show ?thesis
    unfolding read_loop_Next [OF p, of evs] p by simp
qed

theorem decode_failure_is_skipped_witness:
  "snd (Unmarshal NotJSON) = Some SyntaxError
   \<and> process Some no_faults Map.empty NotJSON = (Map.empty, [Log LogJSONDecodeFailed], Next)
   \<and> fst (snd (read_loop Some Map.empty
        [Message NotJSON no_faults, Message (JSON (JObject [])) no_faults]))
      = [Log LogJSONDecodeFailed, Log (LogUnknownCommand [])]
   \<and> snd (snd (read_loop Some Map.empty
        [Message NotJSON no_faults, Message (JSON (JObject [])) no_faults])) = Reading"
proof -
  have u: "snd (Unmarshal NotJSON) = Some SyntaxError"
    by (simp add: Unmarshal_def)
  note r = decode_failure_is_skipped [where res = Some and fs = Map.empty and fl = no_faults
      and evs = "[Message (JSON (JObject [])) no_faults]", OF u]
  have e: "read_loop Some Map.empty [Message (JSON (JObject [])) no_faults]
      = (Map.empty, [Log (LogUnknownCommand [])], Reading)"
    by (simp add: process_empty_object)
  have full: "read_loop Some Map.empty
        [Message NotJSON no_faults, Message (JSON (JObject [])) no_faults]
      = (Map.empty, [Log LogJSONDecodeFailed, Log (LogUnknownCommand [])], Reading)"
    using r [THEN conjunct2, THEN conjunct1] unfolding e by (simp only: fst_conv snd_conv)
  show ?thesis
  proof (intro conjI)
    show "snd (Unmarshal NotJSON) = Some SyntaxError" by (rule u)
    show "process Some no_faults Map.empty NotJSON = (Map.empty, [Log LogJSONDecodeFailed], Next)"
      by (rule r [THEN conjunct1])
    show "fst (snd (read_loop Some Map.empty
        [Message NotJSON no_faults, Message (JSON (JObject [])) no_faults]))
      = [Log LogJSONDecodeFailed, Log (LogUnknownCommand [])]"
      by (simp only: full fst_conv snd_conv)
    show "snd (snd (read_loop Some Map.empty
        [Message NotJSON no_faults, Message (JSON (JObject [])) no_faults])) = Reading"
      by (simp only: full fst_conv snd_conv)
  qed
qed

subsection \<open>C6: failures of the transport\<close>

text \<open>
  C6, what the code does. A failed \<^verbatim>\<open>ReadMessage\<close> ends the loop: the events after it
  are not looked at. A failed \<^verbatim>\<open>WriteMessage\<close> does not: the \<^verbatim>\<open>break\<close> at [110]
  leaves the \<^verbatim>\<open>switch\<close> only, so for every request that gets as far as sending and
  whose send fails, the handler logs the failure and handles the events that follow
  exactly as it would have handled them otherwise.
\<close>

theorem send_failure_does_not_end_loop:
  assumes "envelope_of m = Some d" and "Command d = ''request''" and "ID d \<noteq> []"
    and "lookup_file res fs (''images/'' @ ID d @ ''.jpg'') = Some bs"
    and "\<not> open_fails fl" and "\<not> fstat_fails fl" and "\<not> read_fails fl" and "send_fails fl"
  shows "read_loop res fs (ReadError # evs) = (fs, [Log LogReadFailed], ReadFailed)
       \<and> read_loop res fs (Message m fl # evs) =
           (fst (read_loop res fs evs),
            [FsStat (''images/'' @ ID d @ ''.jpg''), FsOpen (''images/'' @ ID d @ ''.jpg''),
             Log LogSendFailed] @ fst (snd (read_loop res fs evs)),
            snd (snd (read_loop res fs evs)))"
proof -
  have p: "process res fl fs m =
      (fs, [FsStat (''images/'' @ ID d @ ''.jpg''), FsOpen (''images/'' @ ID d @ ''.jpg''),
            Log LogSendFailed], Next)"
    using assms(3-8) by (simp add: process_request [OF assms(1,2)] handle_request_send_failed)
  show ?thesis
    unfolding read_loop_Next [OF p, of evs] by simp
qed

theorem send_failure_does_not_end_loop_witness:
  "send_fails (no_faults\<lparr>send_fails := True\<rparr>)
   \<and> lookup_file Some [''images/a.jpg'' \<mapsto> ''A''] (''images/'' @ ''a'' @ ''.jpg'') = Some ''A''
   \<and> fst (snd (read_loop Some [''images/a.jpg'' \<mapsto> ''A'']
        [Message (request_msg ''a'') (no_faults\<lparr>send_fails := True\<rparr>),
         Message (upload_msg ''b'' (data_uri ''png'' ''QQ=='')) no_faults]))
      = [FsStat ''images/a.jpg'', FsOpen ''images/a.jpg'', Log LogSendFailed,
         FsCreate ''images/b.jpg'', Log (LogSaved ''b.jpg'')]
   \<and> fst (read_loop Some [''images/a.jpg'' \<mapsto> ''A'']
        [Message (request_msg ''a'') (no_faults\<lparr>send_fails := True\<rparr>),
         Message (upload_msg ''b'' (data_uri ''png'' ''QQ=='')) no_faults]) ''images/b.jpg''
      = Some ''A''
   \<and> snd (snd (read_loop Some [''images/a.jpg'' \<mapsto> ''A'']
        [Message (request_msg ''a'') (no_faults\<lparr>send_fails := True\<rparr>),
         Message (upload_msg ''b'' (data_uri ''png'' ''QQ=='')) no_faults])) = Reading"
proof -
  let ?fs = "[''images/a.jpg'' \<mapsto> ''A'']"
  let ?fl = "no_faults\<lparr>send_fails := True\<rparr>"
  let ?d = "\<lparr>Command = ''request'', ID = ''a'', Base64Img = []\<rparr>"
  let ?u = "\<lparr>Command = ''upload'', ID = ''b'', Base64Img = data_uri ''png'' ''QQ==''\<rparr>"
  have c: "CHR '','' \<notin> set ''png''" by simp
  have d: "Command ?d = ''request''" "ID ?d \<noteq> []" by simp_all
  have l: "lookup_file Some ?fs (''images/'' @ ''a'' @ ''.jpg'') = Some ''A''"
    by (simp add: lookup_file_def)
  then have l': "lookup_file Some ?fs (''images/'' @ ID ?d @ ''.jpg'') = Some ''A''" by simp
  have f: "\<not> open_fails ?fl" "\<not> fstat_fails ?fl" "\<not> read_fails ?fl" "send_fails ?fl"
    by (simp_all add: no_faults_def)
  have p: "HasPrefix (Base64Img ?u) ''data:image/''" "0 \<le> Index (Base64Img ?u) '',''"
    by (simp_all add: data_uri_split(1,2) [OF c])
  have q: "DecodeString (drop (nat (Index (Base64Img ?u) '','' + 1)) (Base64Img ?u)) = Some ''A''"
    by (simp only: ImageData.select_convs data_uri_split(3) [OF c] DecodeString_QQ)
  have g: "\<not> create_fails no_faults" "write_fails no_faults = None"
    by (simp_all add: no_faults_def)
  have k: "Some (''images/'' @ ID ?u @ ''.jpg'') = Some ''images/b.jpg''" by simp
  have "handle_upload Some no_faults ?fs ?u =
      (?fs(''images/b.jpg'' \<mapsto> ''A''),
       [FsCreate (''images/'' @ ID ?u @ ''.jpg''), Log (LogSaved (ID ?u @ ''.jpg''))])"
    by (rule handle_upload_stored [where res = Some, OF p q g k])
  then have "process Some no_faults ?fs (upload_msg ''b'' (data_uri ''png'' ''QQ=='')) =
      (?fs(''images/b.jpg'' \<mapsto> ''A''), [FsCreate ''images/b.jpg'', Log (LogSaved ''b.jpg'')], Next)"
    by (simp add: process_upload [OF envelope_of_upload_msg])
  then have e: "read_loop Some ?fs [Message (upload_msg ''b'' (data_uri ''png'' ''QQ=='')) no_faults] =
      (?fs(''images/b.jpg'' \<mapsto> ''A''), [FsCreate ''images/b.jpg'', Log (LogSaved ''b.jpg'')], Reading)"
    by simp
  note r = send_failure_does_not_end_loop [where res = Some and fs = ?fs and fl = ?fl
      and evs = "[Message (upload_msg ''b'' (data_uri ''png'' ''QQ=='')) no_faults]",
      OF envelope_of_request_msg d l' f, THEN conjunct2]
  have full: "read_loop Some ?fs
        [Message (request_msg ''a'') ?fl,
         Message (upload_msg ''b'' (data_uri ''png'' ''QQ=='')) no_faults]
      = (?fs(''images/b.jpg'' \<mapsto> ''A''),
         [FsStat ''images/a.jpg'', FsOpen ''images/a.jpg'', Log LogSendFailed,
          FsCreate ''images/b.jpg'', Log (LogSaved ''b.jpg'')], Reading)"
    unfolding r e by simp
  show ?thesis
  proof (intro conjI)
    show "send_fails ?fl" by (rule f(4))
    show "lookup_file Some ?fs (''images/'' @ ''a'' @ ''.jpg'') = Some ''A''" by (rule l)
  qed (simp_all only: full fst_conv snd_conv fun_upd_same)
qed

subsection \<open>C7: file names and the label of the response\<close>

text \<open>
  C7. While one decoded message is handled, every file-system call (\<^verbatim>\<open>os.Create\<close>,
  \<^verbatim>\<open>os.Stat\<close>, \<^verbatim>\<open>os.Open\<close>) is made on the path \<^verbatim>\<open>images/\<close> followed by the id
  as it is in the message, followed by \<^verbatim>\<open>.jpg\<close>, whatever the payload says; no other
  file of the store changes. An upload that passes the payload checks calls
  \<^verbatim>\<open>os.Create\<close> on that path, and a request with a non-empty id calls \<^verbatim>\<open>os.Stat\<close> on
  it. Every response is \<^verbatim>\<open>data:image/jpg;base64,\<close> followed by the encoding of the
  content of that file.
\<close>

theorem file_name_is_id_and_jpg:
  assumes "envelope_of m = Some d"
  shows "set (fs_paths (fst (snd (process res fl fs m)))) \<subseteq> {''images/'' @ ID d @ ''.jpg''}
       \<and> (\<forall>k. res (''images/'' @ ID d @ ''.jpg'') \<noteq> Some k \<longrightarrow> fst (process res fl fs m) k = fs k)
       \<and> (\<forall>r \<in> set (responses (fst (snd (process res fl fs m)))).
            \<exists>bs. lookup_file res fs (''images/'' @ ID d @ ''.jpg'') = Some bs
               \<and> r = ''data:image/jpg;base64,'' @ EncodeToString bs)
       \<and> (Command d = ''upload'' \<longrightarrow> HasPrefix (Base64Img d) ''data:image/'' \<longrightarrow>
            0 \<le> Index (Base64Img d) '','' \<longrightarrow>
            DecodeString (drop (nat (Index (Base64Img d) '','' + 1)) (Base64Img d)) \<noteq> None \<longrightarrow>
            hd (fst (snd (process res fl fs m))) = FsCreate (''images/'' @ ID d @ ''.jpg''))
       \<and> (Command d = ''request'' \<longrightarrow> ID d \<noteq> [] \<longrightarrow>
            hd (fst (snd (process res fl fs m))) = FsStat (''images/'' @ ID d @ ''.jpg''))"
proof -
  let ?path = "''images/'' @ ID d @ ''.jpg''"
  let ?es = "fst (snd (process res fl fs m))"
  consider (upload) "Command d = ''upload''" | (request) "Command d = ''request''"
    | (other) "Command d \<noteq> ''upload''" "Command d \<noteq> ''request''"
    by blast
  then have A: "set (fs_paths ?es) \<subseteq> {?path}"
  proof cases
    case upload
    show ?thesis unfolding process_upload [OF assms upload]
      by (simp only: fst_conv snd_conv handle_upload_paths)
  next
    case request
    show ?thesis unfolding process_request [OF assms request]
      by (simp only: fst_conv snd_conv handle_request_paths)
  next
    case other
    show ?thesis unfolding process_unknown [OF assms other] by simp
  qed
  have B: "fst (process res fl fs m) k = fs k" if "res ?path \<noteq> Some k" for k
  proof (cases "Command d = ''upload''")
    case True
    show ?thesis unfolding process_upload [OF assms True]
      using that by (simp only: fst_conv) (rule handle_upload_store)
  next
    case False
    then show ?thesis using assms
      by (auto simp: envelope_of_def process_def split: prod.splits option.splits)
  qed
  have C: "\<exists>bs. lookup_file res fs ?path = Some bs \<and> r = ''data:image/jpg;base64,'' @ EncodeToString bs"
    if "r \<in> set (responses ?es)" for r
  proof -
    consider (upload) "Command d = ''upload''" | (request) "Command d = ''request''"
      | (other) "Command d \<noteq> ''upload''" "Command d \<noteq> ''request''"
      by blast
    then show ?thesis
    proof cases
      case upload
      with that show ?thesis unfolding process_upload [OF assms upload]
        by (simp add: handle_upload_responses)
    next
      case request
      from that show ?thesis unfolding process_request [OF assms request]
        by (simp only: fst_conv snd_conv) (rule handle_request_responses)
    next
      case other
      from that show ?thesis unfolding process_unknown [OF assms other] by simp
    qed
  qed
  have D: "hd ?es = FsCreate ?path"
    if "Command d = ''upload''" "HasPrefix (Base64Img d) ''data:image/''"
      "0 \<le> Index (Base64Img d) '',''"
      "DecodeString (drop (nat (Index (Base64Img d) '','' + 1)) (Base64Img d)) \<noteq> None"
  proof -
    from that(4) obtain bs where
      "DecodeString (drop (nat (Index (Base64Img d) '','' + 1)) (Base64Img d)) = Some bs"
      by blast
    from handle_upload_create [OF that(2,3) this] show ?thesis
      unfolding process_upload [OF assms that(1)] by (simp only: fst_conv snd_conv)
  qed
  have E: "hd ?es = FsStat ?path" if "Command d = ''request''" "ID d \<noteq> []"
    unfolding process_request [OF assms that(1)]
    by (simp only: fst_conv snd_conv handle_request_stat [OF that(2)])
  from A B C D E show ?thesis by blast
qed

theorem file_name_is_id_and_jpg_witness:
  "hd (fst (snd (process Some no_faults Map.empty
        (upload_msg ''abc'' (data_uri ''png'' ''QQ=='')))))
     = FsCreate ''images/abc.jpg''
   \<and> hd (fst (snd (process Some no_faults [''images/abc.jpg'' \<mapsto> ''A''] (request_msg ''abc''))))
     = FsStat ''images/abc.jpg''
   \<and> set (fs_paths (fst (snd (process Some no_faults [''images/abc.jpg'' \<mapsto> ''A'']
        (request_msg ''abc''))))) \<subseteq> {''images/abc.jpg''}
   \<and> ''data:image/jpg;base64,QQ=='' \<in> set (responses (fst (snd
        (process Some no_faults [''images/abc.jpg'' \<mapsto> ''A''] (request_msg ''abc'')))))
   \<and> (\<exists>bs. lookup_file Some [''images/abc.jpg'' \<mapsto> ''A''] ''images/abc.jpg'' = Some bs
          \<and> ''data:image/jpg;base64,QQ=='' = ''data:image/jpg;base64,'' @ EncodeToString bs)"
proof -
  let ?fs = "[''images/abc.jpg'' \<mapsto> ''A'']"
  let ?u = "\<lparr>Command = ''upload'', ID = ''abc'', Base64Img = data_uri ''png'' ''QQ==''\<rparr>"
  let ?d = "\<lparr>Command = ''request'', ID = ''abc'', Base64Img = []\<rparr>"
  have c: "CHR '','' \<notin> set ''png''" by simp
  have u: "Command ?u = ''upload''" "HasPrefix (Base64Img ?u) ''data:image/''"
      "0 \<le> Index (Base64Img ?u) '',''"
    by (simp_all add: data_uri_split(1,2) [OF c])
  have q: "DecodeString (drop (nat (Index (Base64Img ?u) '','' + 1)) (Base64Img ?u)) \<noteq> None"
    by (simp only: ImageData.select_convs data_uri_split(3) [OF c] DecodeString_QQ) simp
  have d: "Command ?d = ''request''" "ID ?d \<noteq> []" by simp_all
  note ru = file_name_is_id_and_jpg [where res = Some and fl = no_faults and fs = Map.empty,
      OF envelope_of_upload_msg [of "''abc''" "data_uri ''png'' ''QQ==''"]]
  note rd = file_name_is_id_and_jpg [where res = Some and fl = no_faults and fs = ?fs,
      OF envelope_of_request_msg [of "''abc''"]]
  have 1: "hd (fst (snd (process Some no_faults Map.empty
        (upload_msg ''abc'' (data_uri ''png'' ''QQ=='')))))
     = FsCreate ''images/abc.jpg''"
    using ru u q by simp
  have 2: "hd (fst (snd (process Some no_faults ?fs (request_msg ''abc''))))
     = FsStat ''images/abc.jpg''"
    using rd d by simp
  have 3: "set (fs_paths (fst (snd (process Some no_faults ?fs (request_msg ''abc'')))))
      \<subseteq> {''images/abc.jpg''}"
    using rd by simp
  have l: "lookup_file Some ?fs (''images/'' @ ID ?d @ ''.jpg'') = Some ''A''"
    by (simp add: lookup_file_def)
  have f: "\<not> open_fails no_faults" "\<not> fstat_fails no_faults" "\<not> read_fails no_faults"
      "\<not> send_fails no_faults"
    by (simp_all add: no_faults_def)
  have "handle_request Some no_faults ?fs ?d =
      ([FsStat (''images/'' @ ID ?d @ ''.jpg''), FsOpen (''images/'' @ ID ?d @ ''.jpg''),
        WsWrite (''data:image/jpg;base64,'' @ EncodeToString ''A''),
        Log (LogSent (''images/'' @ ID ?d @ ''.jpg''))], Next)"
    by (rule handle_request_sent [where res = Some, OF d(2) l f])
  then have 4: "''data:image/jpg;base64,QQ=='' \<in> set (responses (fst (snd
        (process Some no_faults ?fs (request_msg ''abc'')))))"
    by (simp add: process_request [OF envelope_of_request_msg] b64_eval)
  have "\<forall>r \<in> set (responses (fst (snd (process Some no_faults ?fs (request_msg ''abc''))))).
      \<exists>bs. lookup_file Some ?fs ''images/abc.jpg'' = Some bs
        \<and> r = ''data:image/jpg;base64,'' @ EncodeToString bs"
    using rd by simp
  from bspec [OF this 4]
  have 5: "\<exists>bs. lookup_file Some ?fs ''images/abc.jpg'' = Some bs
          \<and> ''data:image/jpg;base64,QQ=='' = ''data:image/jpg;base64,'' @ EncodeToString bs" .
  from 1 2 3 4 5 show ?thesis by blast
qed

subsection \<open>C8: two uploads for one id\<close>

text \<open>
  The claim is made for every id. With the empty id both uploads succeed and
  \<^verbatim>\<open>images/.jpg\<close> holds the bytes of the second one, but the request with the empty id
  does nothing [81], so the second upload's content is not returned.
\<close>

theorem second_upload_not_returned_counterexample:
  "fst (read_loop Some Map.empty
      [Message (upload_msg [] (data_uri ''png'' ''QQ=='')) no_faults,
       Message (upload_msg [] (data_uri ''gif'' ''Qg=='')) no_faults,
       Message (request_msg []) no_faults]) ''images/.jpg''
    = Some ''B''
   \<and> responses (fst (snd (read_loop Some Map.empty
      [Message (upload_msg [] (data_uri ''png'' ''QQ=='')) no_faults,
       Message (upload_msg [] (data_uri ''gif'' ''Qg=='')) no_faults,
       Message (request_msg []) no_faults])))
    = []"
proof -
  let ?u1 = "\<lparr>Command = ''upload'', ID = [], Base64Img = data_uri ''png'' ''QQ==''\<rparr>"
  let ?u2 = "\<lparr>Command = ''upload'', ID = [], Base64Img = data_uri ''gif'' ''Qg==''\<rparr>"
  let ?fs = "Map.empty(''images/.jpg'' \<mapsto> ''B'')"
  have c1: "CHR '','' \<notin> set ''png''" and c2: "CHR '','' \<notin> set ''gif''" by simp_all
  have u1: "Command ?u1 = ''upload''" "HasPrefix (Base64Img ?u1) ''data:image/''"
      "0 \<le> Index (Base64Img ?u1) '',''"
    by (simp_all add: data_uri_split(1,2) [OF c1])
  have q1: "DecodeString (drop (nat (Index (Base64Img ?u1) '','' + 1)) (Base64Img ?u1)) = Some ''A''"
    by (simp only: ImageData.select_convs data_uri_split(3) [OF c1] DecodeString_QQ)
  have u2: "Command ?u2 = ''upload''" "ID ?u2 = ID ?u1" "HasPrefix (Base64Img ?u2) ''data:image/''"
      "0 \<le> Index (Base64Img ?u2) '',''"
    by (simp_all add: data_uri_split(1,2) [OF c2])
  have q2: "DecodeString (drop (nat (Index (Base64Img ?u2) '','' + 1)) (Base64Img ?u2)) = Some ''B''"
    by (simp only: ImageData.select_convs data_uri_split(3) [OF c2] DecodeString_Qg)
  have f: "\<not> create_fails no_faults" "write_fails no_faults = None"
    by (simp_all add: no_faults_def)
  have k: "Some (''images/'' @ ID ?u1 @ ''.jpg'') = Some ''images/.jpg''" by simp
  note two = read_loop_two_uploads [where res = Some and fs = Map.empty
      and evs = "[Message (request_msg []) no_faults]",
      OF envelope_of_upload_msg u1 q1 f envelope_of_upload_msg u2 q2 f k]
  have "process Some no_faults ?fs (request_msg []) = (?fs, [], Next)"
    by (rule process_request_empty_id [OF envelope_of_request_msg]) simp_all
  then have r: "read_loop Some ?fs [Message (request_msg []) no_faults] = (?fs, [], Reading)"
    by simp
  show ?thesis
    unfolding two r by simp
qed

text \<open>
  C8, as the code has it. For every id and every two upload messages for it that are
  handled one after the other and both succeed (the payload passes the checks, the file is
  created and written), the file of the id holds exactly the bytes decoded from the second
  payload afterwards. If the id is not empty, a request for the id that follows, and
  succeeds, returns the encoding of these bytes.
\<close>

theorem second_upload_replaces_first:
  assumes "envelope_of m1 = Some d1" and "Command d1 = ''upload''"
    and "HasPrefix (Base64Img d1) ''data:image/''" and "0 \<le> Index (Base64Img d1) '',''"
    and "DecodeString (drop (nat (Index (Base64Img d1) '','' + 1)) (Base64Img d1)) = Some bs1"
    and "\<not> create_fails f1" and "write_fails f1 = None"
    and "envelope_of m2 = Some d2" and "Command d2 = ''upload''" and "ID d2 = ID d1"
    and "HasPrefix (Base64Img d2) ''data:image/''" and "0 \<le> Index (Base64Img d2) '',''"
    and "DecodeString (drop (nat (Index (Base64Img d2) '','' + 1)) (Base64Img d2)) = Some bs2"
    and "\<not> create_fails f2" and "write_fails f2 = None"
    and "res (''images/'' @ ID d1 @ ''.jpg'') = Some k"
  shows "fst (read_loop res fs [Message m1 f1, Message m2 f2]) = fs(k \<mapsto> bs2)
       \<and> lookup_file res (fst (read_loop res fs [Message m1 f1, Message m2 f2]))
            (''images/'' @ ID d1 @ ''.jpg'') = Some bs2
       \<and> (envelope_of m3 = Some d3 \<longrightarrow> Command d3 = ''request'' \<longrightarrow> ID d3 = ID d1 \<longrightarrow>
            ID d1 \<noteq> [] \<longrightarrow>
            \<not> open_fails f3 \<longrightarrow> \<not> fstat_fails f3 \<longrightarrow> \<not> read_fails f3 \<longrightarrow> \<not> send_fails f3 \<longrightarrow>
            responses (fst (snd (read_loop res fs [Message m1 f1, Message m2 f2, Message m3 f3])))
              = [''data:image/jpg;base64,'' @ EncodeToString bs2])"
proof -
  note two = read_loop_two_uploads [where res = res and k = k and fs = fs, OF assms(1-15)]
  have A: "fst (read_loop res fs [Message m1 f1, Message m2 f2]) = fs(k \<mapsto> bs2)"
    using assms(16) by (simp only: two) simp
  have B: "lookup_file res (fs(k \<mapsto> bs2)) (''images/'' @ ID d1 @ ''.jpg'') = Some bs2"
    using assms(16) by (rule lookup_file_upd)
  have C: "responses (fst (snd (read_loop res fs [Message m1 f1, Message m2 f2, Message m3 f3])))
              = [''data:image/jpg;base64,'' @ EncodeToString bs2]"
    if r: "envelope_of m3 = Some d3" "Command d3 = ''request''" "ID d3 = ID d1" "ID d1 \<noteq> []"
      and f: "\<not> open_fails f3" "\<not> fstat_fails f3" "\<not> read_fails f3" "\<not> send_fails f3"
  proof -
    have "handle_request res f3 (fs(k \<mapsto> bs2)) d3 =
        ([FsStat (''images/'' @ ID d3 @ ''.jpg''), FsOpen (''images/'' @ ID d3 @ ''.jpg''),
          WsWrite (''data:image/jpg;base64,'' @ EncodeToString bs2),
          Log (LogSent (''images/'' @ ID d3 @ ''.jpg''))], Next)"
      using r(3,4) B f by (simp add: handle_request_sent)
    then have "process res f3 (fs(k \<mapsto> bs2)) m3 =
        (fs(k \<mapsto> bs2),
         [FsStat (''images/'' @ ID d3 @ ''.jpg''), FsOpen (''images/'' @ ID d3 @ ''.jpg''),
          WsWrite (''data:image/jpg;base64,'' @ EncodeToString bs2),
          Log (LogSent (''images/'' @ ID d3 @ ''.jpg''))], Next)"
      by (simp add: process_request [OF r(1,2)])
    note read_loop_Next [OF this, of "[]"]
    then show ?thesis
      using assms(16) by (simp only: two) simp
  qed
  from A B C show ?thesis by (simp only:) blast
qed

theorem second_upload_replaces_first_witness:
  "fst (read_loop Some Map.empty
      [Message (upload_msg ''a'' (data_uri ''png'' ''QQ=='')) no_faults,
       Message (upload_msg ''a'' (data_uri ''gif'' ''Qg=='')) no_faults])
    = Map.empty(''images/a.jpg'' \<mapsto> ''B'')
   \<and> responses (fst (snd (read_loop Some Map.empty
      [Message (upload_msg ''a'' (data_uri ''png'' ''QQ=='')) no_faults,
       Message (upload_msg ''a'' (data_uri ''gif'' ''Qg=='')) no_faults,
       Message (request_msg ''a'') no_faults])))
    = [''data:image/jpg;base64,Qg=='']"
proof -
  let ?u1 = "\<lparr>Command = ''upload'', ID = ''a'', Base64Img = data_uri ''png'' ''QQ==''\<rparr>"
  let ?u2 = "\<lparr>Command = ''upload'', ID = ''a'', Base64Img = data_uri ''gif'' ''Qg==''\<rparr>"
  let ?d = "\<lparr>Command = ''request'', ID = ''a'', Base64Img = []\<rparr>"
  have c1: "CHR '','' \<notin> set ''png''" and c2: "CHR '','' \<notin> set ''gif''" by simp_all
  have u1: "Command ?u1 = ''upload''" "HasPrefix (Base64Img ?u1) ''data:image/''"
      "0 \<le> Index (Base64Img ?u1) '',''"
    by (simp_all add: data_uri_split(1,2) [OF c1])
  have q1: "DecodeString (drop (nat (Index (Base64Img ?u1) '','' + 1)) (Base64Img ?u1)) = Some ''A''"
    by (simp only: ImageData.select_convs data_uri_split(3) [OF c1] DecodeString_QQ)
  have u2: "Command ?u2 = ''upload''" "ID ?u2 = ID ?u1" "HasPrefix (Base64Img ?u2) ''data:image/''"
      "0 \<le> Index (Base64Img ?u2) '',''"
    by (simp_all add: data_uri_split(1,2) [OF c2])
  have q2: "DecodeString (drop (nat (Index (Base64Img ?u2) '','' + 1)) (Base64Img ?u2)) = Some ''B''"
    by (simp only: ImageData.select_convs data_uri_split(3) [OF c2] DecodeString_Qg)
  have f: "\<not> create_fails no_faults" "write_fails no_faults = None"
    by (simp_all add: no_faults_def)
  have g: "\<not> open_fails no_faults" "\<not> fstat_fails no_faults" "\<not> read_fails no_faults"
      "\<not> send_fails no_faults"
    by (simp_all add: no_faults_def)
  have k: "Some (''images/'' @ ID ?u1 @ ''.jpg'') = Some ''images/a.jpg''" by simp
  have d: "Command ?d = ''request''" "ID ?d = ID ?u1" "ID ?u1 \<noteq> []" by simp_all
  note r = second_upload_replaces_first [where res = Some and fs = Map.empty
      and ?m3.0 = "request_msg ''a''" and ?d3.0 = ?d and ?f3.0 = no_faults,
      OF envelope_of_upload_msg u1 q1 f envelope_of_upload_msg u2(1,2,3,4) q2 f k]
  from r have 1: "fst (read_loop Some Map.empty
      [Message (upload_msg ''a'' (data_uri ''png'' ''QQ=='')) no_faults,
       Message (upload_msg ''a'' (data_uri ''gif'' ''Qg=='')) no_faults])
    = Map.empty(''images/a.jpg'' \<mapsto> ''B'')"
    by blast
  from r envelope_of_request_msg [of "''a''"] d g
  have "responses (fst (snd (read_loop Some Map.empty
      [Message (upload_msg ''a'' (data_uri ''png'' ''QQ=='')) no_faults,
       Message (upload_msg ''a'' (data_uri ''gif'' ''Qg=='')) no_faults,
       Message (request_msg ''a'') no_faults])))
    = [''data:image/jpg;base64,'' @ EncodeToString ''B'']"
    by blast
  then have 2: "responses (fst (snd (read_loop Some Map.empty
      [Message (upload_msg ''a'' (data_uri ''png'' ''QQ=='')) no_faults,
       Message (upload_msg ''a'' (data_uri ''gif'' ''Qg=='')) no_faults,
       Message (request_msg ''a'') no_faults])))
    = [''data:image/jpg;base64,Qg=='']"
    by (simp only: EncodeToString_B) simp
  from 1 2 show ?thesis by (rule conjI)
qed

subsection \<open>C9: the empty id\<close>

text \<open>
  The file written for the empty id is \<^verbatim>\<open>images/.jpg\<close>. A request with the empty id
  does nothing, but the id is put into the path as it is, and a path names the same file
  when a \<^verbatim>\<open>.\<close> component or a second separator is added to it. So a request with the
  id \<^verbatim>\<open>./\<close> asks for \<^verbatim>\<open>images/./.jpg\<close>, which is that file, and gets its content.
\<close>

theorem empty_id_file_is_reachable_counterexample:
  "posix_resolve (''images/'' @ ''./'' @ ''.jpg'') = posix_resolve (''images/'' @ [] @ ''.jpg'')
   \<and> fst (process posix_resolve no_faults Map.empty (upload_msg [] (data_uri ''png'' ''QQ=='')))
       [''images'', ''.jpg''] = Some ''A''
   \<and> responses (fst (snd (read_loop posix_resolve Map.empty
        [Message (upload_msg [] (data_uri ''png'' ''QQ=='')) no_faults,
         Message (request_msg ''./'') no_faults])))
      = [''data:image/jpg;base64,QQ=='']"
proof -
  let ?u = "\<lparr>Command = ''upload'', ID = [], Base64Img = data_uri ''png'' ''QQ==''\<rparr>"
  let ?d = "\<lparr>Command = ''request'', ID = ''./'', Base64Img = []\<rparr>"
  let ?k = "[''images'', ''.jpg'']"
  let ?fs = "Map.empty(?k \<mapsto> ''A'')"
  have c: "CHR '','' \<notin> set ''png''" by simp
  have p: "HasPrefix (Base64Img ?u) ''data:image/''" "0 \<le> Index (Base64Img ?u) '',''"
    by (simp_all add: data_uri_split(1,2) [OF c])
  have q: "DecodeString (drop (nat (Index (Base64Img ?u) '','' + 1)) (Base64Img ?u)) = Some ''A''"
    by (simp only: ImageData.select_convs data_uri_split(3) [OF c] DecodeString_QQ)
  have g: "\<not> create_fails no_faults" "write_fails no_faults = None"
    by (simp_all add: no_faults_def)
  have f: "\<not> open_fails no_faults" "\<not> fstat_fails no_faults" "\<not> read_fails no_faults"
      "\<not> send_fails no_faults"
    by (simp_all add: no_faults_def)
  have k: "posix_resolve (''images/'' @ ID ?u @ ''.jpg'') = Some ?k"
    by (simp add: posix_resolve_empty_id)
  have "handle_upload posix_resolve no_faults Map.empty ?u =
      (?fs, [FsCreate (''images/'' @ ID ?u @ ''.jpg''), Log (LogSaved (ID ?u @ ''.jpg''))])"
    by (rule handle_upload_stored [where res = posix_resolve, OF p q g k])
  then have pu: "process posix_resolve no_faults Map.empty (upload_msg [] (data_uri ''png'' ''QQ==''))
      = (?fs, [FsCreate ''images/.jpg'', Log (LogSaved ''.jpg'')], Next)"
    by (simp add: process_upload [OF envelope_of_upload_msg])
  have i: "ID ?d \<noteq> []" by simp
  have l: "lookup_file posix_resolve ?fs (''images/'' @ ID ?d @ ''.jpg'') = Some ''A''"
    by (simp add: lookup_file_def posix_resolve_dot_id)
  have "handle_request posix_resolve no_faults ?fs ?d =
      ([FsStat (''images/'' @ ID ?d @ ''.jpg''), FsOpen (''images/'' @ ID ?d @ ''.jpg''),
        WsWrite (''data:image/jpg;base64,'' @ EncodeToString ''A''),
        Log (LogSent (''images/'' @ ID ?d @ ''.jpg''))], Next)"
    by (rule handle_request_sent [where res = posix_resolve, OF i l f])
  then have pr: "process posix_resolve no_faults ?fs (request_msg ''./'')
      = (?fs, [FsStat ''images/./.jpg'', FsOpen ''images/./.jpg'',
           WsWrite ''data:image/jpg;base64,QQ=='', Log (LogSent ''images/./.jpg'')], Next)"
    by (simp add: process_request [OF envelope_of_request_msg] b64_eval)
  have 1: "posix_resolve (''images/'' @ ''./'' @ ''.jpg'') = posix_resolve (''images/'' @ [] @ ''.jpg'')"
    by (simp add: posix_resolve_empty_id posix_resolve_dot_id)
  have 2: "fst (process posix_resolve no_faults Map.empty (upload_msg [] (data_uri ''png'' ''QQ=='')))
       ?k = Some ''A''"
    by (simp only: pu fst_conv fun_upd_same)
  have 3: "responses (fst (snd (read_loop posix_resolve Map.empty
        [Message (upload_msg [] (data_uri ''png'' ''QQ=='')) no_faults,
         Message (request_msg ''./'') no_faults])))
      = [''data:image/jpg;base64,QQ=='']"
    unfolding read_loop_Next [OF pu] read_loop_Next [OF pr] by simp
  from 1 2 3 show ?thesis by blast
qed

text \<open>
  C9, as the code has it. The upload command does not check the id: an upload message
  with an empty id whose payload passes the checks, and for which the file can be created
  and written, stores the decoded bytes in \<^verbatim>\<open>images/.jpg\<close>. A request message with an
  empty id makes no file-system call, sends no response and leaves the store as it is, so
  the file cannot be fetched under the id it was stored with.
\<close>

theorem empty_id_upload_and_request:
  assumes "envelope_of m = Some d" and "Command d = ''upload''" and "ID d = []"
    and "HasPrefix (Base64Img d) ''data:image/''" and "0 \<le> Index (Base64Img d) '',''"
    and "DecodeString (drop (nat (Index (Base64Img d) '','' + 1)) (Base64Img d)) = Some bs"
    and "\<not> create_fails fl" and "write_fails fl = None"
    and "res ''images/.jpg'' = Some k"
  shows "process res fl fs m =
           (fs(k \<mapsto> bs), [FsCreate ''images/.jpg'', Log (LogSaved ''.jpg'')], Next)
       \<and> (envelope_of m' = Some d' \<longrightarrow> Command d' = ''request'' \<longrightarrow> ID d' = [] \<longrightarrow>
            process res fl' fs' m' = (fs', [], Next))"
proof -
  from assms(3,9) have k: "res (''images/'' @ ID d @ ''.jpg'') = Some k" by simp
  have "handle_upload res fl fs d =
      (fs(k \<mapsto> bs), [FsCreate (''images/'' @ ID d @ ''.jpg''), Log (LogSaved (ID d @ ''.jpg''))])"
    using assms(4-8) k by (rule handle_upload_stored)
  then have A: "process res fl fs m =
      (fs(k \<mapsto> bs), [FsCreate ''images/.jpg'', Log (LogSaved ''.jpg'')], Next)"
    using assms(3) by (simp add: process_upload [OF assms(1,2)])
  have B: "process res fl' fs' m' = (fs', [], Next)"
    if "envelope_of m' = Some d'" "Command d' = ''request''" "ID d' = []"
    using that(3) by (simp add: process_request [OF that(1,2)] handle_request_def)
  from A B show ?thesis by blast
qed

theorem empty_id_upload_and_request_witness:
  "process Some no_faults Map.empty (upload_msg [] (data_uri ''png'' ''QQ==''))
     = (Map.empty(''images/.jpg'' \<mapsto> ''A''), [FsCreate ''images/.jpg'', Log (LogSaved ''.jpg'')], Next)
   \<and> process Some no_faults (Map.empty(''images/.jpg'' \<mapsto> ''A'')) (request_msg [])
     = (Map.empty(''images/.jpg'' \<mapsto> ''A''), [], Next)"
proof -
  let ?u = "\<lparr>Command = ''upload'', ID = [], Base64Img = data_uri ''png'' ''QQ==''\<rparr>"
  let ?d = "\<lparr>Command = ''request'', ID = [], Base64Img = []\<rparr>"
  have c: "CHR '','' \<notin> set ''png''" by simp
  have u: "Command ?u = ''upload''" "ID ?u = []" "HasPrefix (Base64Img ?u) ''data:image/''"
      "0 \<le> Index (Base64Img ?u) '',''"
    by (simp_all add: data_uri_split(1,2) [OF c])
  have q: "DecodeString (drop (nat (Index (Base64Img ?u) '','' + 1)) (Base64Img ?u)) = Some ''A''"
    by (simp only: ImageData.select_convs data_uri_split(3) [OF c] DecodeString_QQ)
  have g: "\<not> create_fails no_faults" "write_fails no_faults = None"
    by (simp_all add: no_faults_def)
  have k: "Some ''images/.jpg'' = Some ''images/.jpg''" by simp
  have d: "Command ?d = ''request''" "ID ?d = []" by simp_all
  note r = empty_id_upload_and_request [where res = Some and fs = Map.empty
      and fl' = no_faults and fs' = "Map.empty(''images/.jpg'' \<mapsto> ''A'')"
      and m' = "request_msg []" and d' = ?d,
      OF envelope_of_upload_msg u q g k]
  from r envelope_of_request_msg [of "[]"] d show ?thesis by blast
qed

subsection \<open>C10: objects with missing or other fields\<close>




end
